theory Spec2Isabelle
  imports Main "HOL-Library.Word"
begin

unbundle bit_operations_syntax

section \<open>Common data\<close>

text \<open>
  C++ \<open>unsigned int\<close> and \<open>uint32_t\<close> are 32-bit words: \<open>+\<close> and \<open>*\<close> wrap, \<open>div\<close>,
  \<open>mod\<close> and \<open>\<le>\<close> are unsigned.  A \<open>Handle<T>\<close> is a number, 0 being the invalid handle.
  An \<open>assert\<close> that fails, a fatal error and a C++ exception are values of \<open>error\<close>;
  every operation returns \<open>error + result\<close>.
\<close>

type_synonym u32 = "32 word"
type_synonym handle = nat

datatype error =
    AssertionFailed
  | InvalidHandle
  | DivisionByZero
  | OutOfRange
  | BadGet
  | RuntimeError
  | Unreachable

subsection \<open>Resource container\<close>

text \<open>
  Modelled from the spec: the class template \<open>ResourceContainer<T>\<close> is used by every
  renderer but its definition is not among the sources.  The spec (4.1) says: \<open>add\<close>
  allocates a slot and returns a fresh handle plus a mutable reference, \<open>get\<close> resolves a
  handle or fails fatally on an invalid one, \<open>remove\<close> frees the slot.  Handles are drawn
  from a counter, so a handle given out is never one that is live.
\<close>

record 'a ResourceContainer =
  resources :: "handle \<rightharpoonup> 'a"
  nextHandle :: handle

definition emptyContainer :: "'a ResourceContainer" where
  "emptyContainer = \<lparr> resources = Map.empty, nextHandle = 1 \<rparr>"

definition add_rc :: "'a \<Rightarrow> 'a ResourceContainer \<Rightarrow> 'a ResourceContainer \<times> handle" where
  "add_rc v c =
     (c\<lparr> resources := (resources c)(nextHandle c \<mapsto> v), nextHandle := Suc (nextHandle c) \<rparr>,
      nextHandle c)"

definition get_rc :: "'a ResourceContainer \<Rightarrow> handle \<Rightarrow> error + 'a" where
  "get_rc c h = (case resources c h of None \<Rightarrow> Inl InvalidHandle | Some v \<Rightarrow> Inr v)"

definition remove_rc :: "handle \<Rightarrow> 'a ResourceContainer \<Rightarrow> 'a ResourceContainer" where
  "remove_rc h c = c\<lparr> resources := (resources c)(h := None) \<rparr>"

section \<open>The null renderer's ephemeral ring allocator\<close>

text \<open>
  \<open>NullRenderer.cpp\<close>: \<open>Buffer\<close> and the part of \<open>RendererImpl\<close> that
  \<open>createEphemeralBuffer\<close> and \<open>presentFrame\<close> touch.  The fields carry the suffix
  \<open>_null\<close> because the OpenGL renderer below has fields of the same names.
\<close>

record Buffer_null =
  ringBufferAlloc_null :: bool
  beginOffs :: u32
  size_null :: u32

record RendererImpl_null =
  ringBufSize_null :: u32
  ringBufPtr_null :: u32
  buffers_null :: "Buffer_null ResourceContainer"
  ephemeralBuffers_null :: "handle list"
  inFrame_null :: bool

text \<open>\<open>Buffer::Buffer()\<close> sets \<open>ringBufferAlloc(false)\<close> and \<open>size(0)\<close>.\<close>

definition Buffer_null_ctor :: Buffer_null where
  "Buffer_null_ctor = \<lparr> ringBufferAlloc_null = False, beginOffs = 0, size_null = 0 \<rparr>"

text \<open>The constructor: \<open>ringBufSize(desc.ephemeralRingBufSize)\<close>, \<open>ringBufPtr(0)\<close>.\<close>

definition RendererImpl_null_ctor :: "u32 \<Rightarrow> RendererImpl_null" where
  "RendererImpl_null_ctor ephemeralRingBufSize =
     \<lparr> ringBufSize_null = ephemeralRingBufSize, ringBufPtr_null = 0,
       buffers_null = emptyContainer, ephemeralBuffers_null = [], inFrame_null = False \<rparr>"

text \<open>
  \<open>memcpy(&ringBuffer[beginPtr], contents, size)\<close> writes the bytes
  \<open>beginPtr .. beginPtr + size - 1\<close> of \<open>ringBuffer\<close>, a vector that the constructor has
  resized to \<open>ringBufSize\<close> bytes.  The copy stays inside the vector exactly when
  \<open>beginPtr + size \<le> ringBufSize\<close>, the sum taken without wrap-around; a copy that runs
  past the end is the error \<open>OutOfRange\<close> here.  The bytes themselves are not part of
  the state.
\<close>

definition memcpyFits :: "RendererImpl_null \<Rightarrow> u32 \<Rightarrow> u32 \<Rightarrow> bool" where
  "memcpyFits r beginPtr sz = (unat beginPtr + unat sz \<le> unat (ringBufSize_null r))"

text \<open>
  The writes of \<open>createEphemeralBuffer\<close> once the offset is decided:
  \<open>ringBufPtr = alignedPtr + size\<close>, \<open>buffers.add()\<close>, the three field writes and
  \<open>ephemeralBuffers.push_back\<close>.
\<close>

definition commitAllocation ::
  "RendererImpl_null \<Rightarrow> u32 \<Rightarrow> u32 \<Rightarrow> u32 \<Rightarrow> RendererImpl_null \<times> handle" where
  "commitAllocation r alignedPtr beginPtr sz =
     (let (c, h) = add_rc Buffer_null_ctor (buffers_null r);
          buffer = \<lparr> ringBufferAlloc_null = True, beginOffs = beginPtr, size_null = sz \<rparr>
      in (r\<lparr> ringBufPtr_null := alignedPtr + sz,
              buffers_null := c\<lparr> resources := (resources c)(h \<mapsto> buffer) \<rparr>,
              ephemeralBuffers_null := ephemeralBuffers_null r @ [h] \<rparr>, h))"

text \<open>
  \<open>RendererImpl::createEphemeralBuffer(size, contents)\<close>.  \<open>align = 8\<close>,
  \<open>add = (1 << align) - 1\<close>, \<open>mask = ~add\<close>.  A ring of size 0 makes \<open>%\<close> divide by
  zero.  The \<open>contents\<close> pointer is not a parameter here: the caller is taken to pass
  a non-null pointer, so \<open>assert(contents != nullptr)\<close> holds.
\<close>

definition createEphemeralBuffer_null ::
  "RendererImpl_null \<Rightarrow> u32 \<Rightarrow> error + (RendererImpl_null \<times> handle)" where
  "createEphemeralBuffer_null r sz =
     (if sz = 0 then Inl AssertionFailed
      else
        let align = (8 :: nat);
            add = push_bit align (1 :: u32) - 1;
            mask = NOT add;
            alignedPtr = (ringBufPtr_null r + add) AND mask
        in if \<not> ringBufPtr_null r \<le> alignedPtr then Inl AssertionFailed
           else if ringBufSize_null r = 0 then Inl DivisionByZero
           else
             let beginPtr = alignedPtr mod ringBufSize_null r
             in if beginPtr + sz \<ge> ringBufSize_null r then
                  let ringBufPtr' = (ringBufPtr_null r div ringBufSize_null r + 1) * ringBufSize_null r
                  in if ringBufPtr' AND NOT mask \<noteq> 0 then Inl AssertionFailed
                     else
                       let alignedPtr' = (ringBufPtr' + add) AND mask;
                           beginPtr' = alignedPtr' mod ringBufSize_null r
                       in if \<not> beginPtr' + sz < ringBufSize_null r then Inl AssertionFailed
                          else if beginPtr' \<noteq> 0 then Inl AssertionFailed
                          else if \<not> memcpyFits r beginPtr' sz then Inl OutOfRange
                          else Inr (commitAllocation r alignedPtr' beginPtr' sz)
                else if \<not> memcpyFits r beginPtr sz then Inl OutOfRange
                else Inr (commitAllocation r alignedPtr beginPtr sz))"

text \<open>The offset recorded for a handle (0 when the handle is not live).\<close>

definition offsetOf :: "RendererImpl_null \<Rightarrow> handle \<Rightarrow> nat" where
  "offsetOf r h = (case resources (buffers_null r) h of None \<Rightarrow> 0 | Some b \<Rightarrow> unat (beginOffs b))"

definition sizeOf :: "RendererImpl_null \<Rightarrow> handle \<Rightarrow> nat" where
  "sizeOf r h = (case resources (buffers_null r) h of None \<Rightarrow> 0 | Some b \<Rightarrow> unat (size_null b))"

text \<open>
  \<open>RendererImpl::presentFrame\<close>: every ephemeral buffer of the frame is looked up, checked
  and removed from the container, and the list is cleared.  The cursor is left where it is.
\<close>

fun removeEphemeral_null ::
  "handle list \<Rightarrow> Buffer_null ResourceContainer \<Rightarrow> error + Buffer_null ResourceContainer" where
  "removeEphemeral_null [] c = Inr c"
| "removeEphemeral_null (h # hs) c =
     (case get_rc c h of
        Inl e \<Rightarrow> Inl e
      | Inr buffer \<Rightarrow>
          if \<not> ringBufferAlloc_null buffer then Inl AssertionFailed
          else if \<not> size_null buffer > 0 then Inl AssertionFailed
          else removeEphemeral_null hs (remove_rc h c))"

definition presentFrame_null :: "RendererImpl_null \<Rightarrow> error + RendererImpl_null" where
  "presentFrame_null r =
     (if \<not> inFrame_null r then Inl AssertionFailed
      else case removeEphemeral_null (ephemeralBuffers_null r) (buffers_null r) of
             Inl e \<Rightarrow> Inl e
           | Inr c \<Rightarrow> Inr (r\<lparr> inFrame_null := False, buffers_null := c, ephemeralBuffers_null := [] \<rparr>))"

subsection \<open>Runs of allocations and the ranges they occupy\<close>

text \<open>
  A frame issues several \<open>createEphemeralBuffer\<close> calls in a row; the handles collect in
  \<open>ephemeralBuffers\<close>.  \<open>liveRanges\<close> reads back the \<open>(offset, size)\<close> of every
  ephemeral buffer of the frame, in allocation order.
\<close>

fun createEphemeralBuffers_null :: "RendererImpl_null \<Rightarrow> u32 list \<Rightarrow> error + RendererImpl_null" where
  "createEphemeralBuffers_null r [] = Inr r"
| "createEphemeralBuffers_null r (sz # szs) =
     (case createEphemeralBuffer_null r sz of
        Inl e \<Rightarrow> Inl e
      | Inr (r', h) \<Rightarrow> createEphemeralBuffers_null r' szs)"

definition liveRanges :: "RendererImpl_null \<Rightarrow> (nat \<times> nat) list" where
  "liveRanges r = map (\<lambda>h. (offsetOf r h, sizeOf r h)) (ephemeralBuffers_null r)"

text \<open>The ranges handed out by a freshly constructed renderer for a list of requests.\<close>

definition rangesGranted :: "u32 \<Rightarrow> u32 list \<Rightarrow> error + (nat \<times> nat) list" where
  "rangesGranted ephemeralRingBufSize szs =
     (case createEphemeralBuffers_null (RendererImpl_null_ctor ephemeralRingBufSize) szs of
        Inl e \<Rightarrow> Inl e
      | Inr r \<Rightarrow> Inr (liveRanges r))"

text \<open>Two byte ranges \<open>[offset, offset + size)\<close> do not overlap.\<close>

fun disjointRanges :: "nat \<times> nat \<Rightarrow> nat \<times> nat \<Rightarrow> bool" where
  "disjointRanges (o1, s1) (o2, s2) = (o1 + s1 \<le> o2 \<or> o2 + s2 \<le> o1)"

fun pairwiseDisjoint :: "(nat \<times> nat) list \<Rightarrow> bool" where
  "pairwiseDisjoint [] = True"
| "pairwiseDisjoint (x # xs) = (list_all (disjointRanges x) xs \<and> pairwiseDisjoint xs)"

text \<open>
  The cursor \<open>ringBufPtr\<close> counts bytes on a line; the ring offset of a position is the
  position modulo the ring size.  For a position \<open>lo\<close> on that line, \<open>windowPos lo R off\<close>
  is the distance from \<open>lo\<close> forward to the first position whose ring offset is \<open>off\<close>.
\<close>

definition windowPos :: "nat \<Rightarrow> nat \<Rightarrow> nat \<Rightarrow> nat" where
  "windowPos lo R off = (off + (R - lo mod R)) mod R"

text \<open>
  The live ephemeral buffers lie within one ring size from \<open>lo\<close>: the cursor is at most
  one ring size past \<open>lo\<close>; every live ephemeral buffer has a handle the container has
  given out, is not empty, ends inside the ring and, placed at its first position from
  \<open>lo\<close> on, ends at or before the cursor; and no two of them overlap.
\<close>

definition liveInWindow :: "nat \<Rightarrow> RendererImpl_null \<Rightarrow> bool" where
  "liveInWindow lo r =
     (unat (ringBufPtr_null r) \<le> lo + unat (ringBufSize_null r) \<and>
      list_all (\<lambda>h. h < nextHandle (buffers_null r) \<and>
                    0 < sizeOf r h \<and>
                    offsetOf r h + sizeOf r h \<le> unat (ringBufSize_null r) \<and>
                    lo + windowPos lo (unat (ringBufSize_null r)) (offsetOf r h) + sizeOf r h
                      \<le> unat (ringBufPtr_null r))
               (ephemeralBuffers_null r)
      \<and> pairwiseDisjoint (liveRanges r))"

section \<open>The OpenGL renderer: frames, ring buffer and descriptor binding\<close>

text \<open>
  \<open>OpenGLRenderer.cpp\<close>.  The renderer talks to OpenGL; the calls it makes are recorded,
  in order, in \<open>glCalls\<close>.  What OpenGL answers (the name of a created buffer, the
  result of a fence wait) is an argument of the operation that asks for it.  The model is
  the debug build: every \<open>assert\<close> is active.
\<close>

datatype GLbit =
    GL_DYNAMIC_STORAGE_BIT
  | GL_MAP_WRITE_BIT
  | GL_MAP_PERSISTENT_BIT
  | GL_MAP_COHERENT_BIT
  | GL_MAP_READ_BIT

datatype GLtarget = GL_UNIFORM_BUFFER | GL_SHADER_STORAGE_BUFFER

datatype GLCall =
    glUnmapNamedBuffer nat
  | glCreateBuffers nat
  | glNamedBufferStorage nat u32 "GLbit list"
  | glMapNamedBufferRange nat u32 "GLbit list"
  | glClientWaitSync nat
  | glDeleteSync nat
  | glDeleteBuffers nat
  | glBindBufferRange GLtarget nat nat u32 u32
  | glBindTextureUnit nat nat
  | glBindSampler nat nat
  | glDrawArrays u32 u32

text \<open>The four values \<open>glClientWaitSync\<close> can return.\<close>

datatype GLwait =
    GL_ALREADY_SIGNALED
  | GL_CONDITION_SATISFIED
  | GL_TIMEOUT_EXPIRED
  | GL_WAIT_FAILED

datatype BufferType = BufferType_Invalid | Index | Uniform | Storage | Vertex | Everything

text \<open>
  \<open>Buffer\<close> as the functions of \<open>OpenGLRenderer.cpp\<close> use it: the GL buffer name, the
  ring flag, offset, size and logical type.
\<close>

record Buffer =
  buffer :: nat
  ringBufferAlloc :: bool
  offset :: u32
  size_gl :: u32
  type_gl :: BufferType

text \<open>
  The value \<open>buffers.add()\<close> starts from.  Both callers of \<open>add\<close> modelled here assign
  every field afterwards.
\<close>

definition Buffer_ctor :: Buffer where
  "Buffer_ctor = \<lparr> buffer = 0, ringBufferAlloc = False, offset = 0, size_gl = 0,
                    type_gl = BufferType_Invalid \<rparr>"

text \<open>A frame slot; \<open>fence = None\<close> is the null fence.\<close>

record Frame =
  fence :: "nat option"
  usedRingBufPtr :: u32
  outstanding :: bool
  lastFrameNum :: u32
  ephemeralBuffers :: "handle list"

datatype DescriptorType =
    End
  | UniformBuffer
  | StorageBuffer
  | Sampler
  | Texture
  | CombinedSampler

text \<open>
  \<open>DSIndex\<close> is the pair (set index, binding index).  A \<open>DescriptorLayout\<close> is the pair
  (type, byte offset into the blob); a \<open>DescriptorSetLayout\<close> is the vector of them.
  The pending descriptor is a \<open>boost::variant\<close> of four alternatives, in this order
  (\<open>which()\<close> is 0, 1, 2, 3).
\<close>

type_synonym DSIndex = "nat \<times> nat"
type_synonym DescriptorLayout = "DescriptorType \<times> u32"
type_synonym DescriptorSetLayout = "DescriptorLayout list"

datatype CSampler = CSampler handle handle

datatype Descriptor =
    D_BufferHandle handle
  | D_CSampler CSampler
  | D_SamplerHandle handle
  | D_TextureHandle handle


record Sampler_gl =
  sampler :: nat

record Texture_gl =
  tex :: nat

text \<open>
  The fields of \<open>PipelineDesc\<close> that the code modelled here reads or writes.  Its
  declaration is not among the sources; the remaining fields live in the record's
  extension, so equality of two descriptions compares them too.
\<close>

record PipelineDesc =
  renderPass_pd :: handle
  descriptorSetLayouts :: "handle list"
  scissorTest :: bool

record ShaderResources =
  ubos :: "DSIndex list"
  ssbos :: "DSIndex list"
  textures_sr :: "DSIndex list"
  samplers_sr :: "DSIndex list"
  uboSizes :: "u32 list"

record Pipeline =
  desc :: PipelineDesc
  shader :: nat
  resources_p :: ShaderResources

record RendererImpl =
  ringBuffer :: nat
  ringBufSize :: u32
  ringBufPtr :: u32
  persistentMapInUse :: bool
  persistentMapping :: "nat option"
  tracing :: bool
  buffers :: "Buffer ResourceContainer"
  samplers :: "Sampler_gl ResourceContainer"
  textures :: "Texture_gl ResourceContainer"
  pipelines :: "Pipeline ResourceContainer"
  dsLayouts :: "DescriptorSetLayout ResourceContainer"
  frames :: "Frame list"
  currentFrameIdx :: nat
  lastSyncedFrame :: u32
  lastSyncedRingBufPtr :: u32
  currentPipeline :: handle
  descriptors :: "DSIndex \<rightharpoonup> Descriptor"
  decriptorSetsDirty :: bool
  inFrame :: bool
  inRenderPass :: bool
  validPipeline :: bool
  pipelineDrawn :: bool
  scissorSet :: bool
  glCalls :: "GLCall list"

subsection \<open>Frame retirement\<close>

text \<open>
  The loop of \<open>waitForFrame\<close> over \<open>frame.ephemeralBuffers\<close>.  A ring-allocated buffer
  is only marked dead; an owned one is deleted through \<open>glDeleteBuffers\<close>.  The fields
  the loop resets (\<open>buffer\<close>, \<open>size\<close>, \<open>offset\<close>, \<open>type\<close>) belong to the slot that
  \<open>buffers.remove\<close> frees right after.
\<close>

fun reclaimEphemeral ::
  "handle list \<Rightarrow> Buffer ResourceContainer \<times> GLCall list
     \<Rightarrow> error + (Buffer ResourceContainer \<times> GLCall list)" where
  "reclaimEphemeral [] s = Inr s"
| "reclaimEphemeral (h # hs) (c, gl) =
     (case get_rc c h of
        Inl e \<Rightarrow> Inl e
      | Inr b \<Rightarrow>
          let gl' = (if ringBufferAlloc b then gl else gl @ [glDeleteBuffers (buffer b)])
          in if \<not> size_gl b > 0 then Inl AssertionFailed
             else if type_gl b = BufferType_Invalid then Inl AssertionFailed
             else reclaimEphemeral hs (remove_rc h c, gl'))"

text \<open>
  \<open>RendererImpl::waitForFrame(frameIdx)\<close>; \<open>result\<close> is what \<open>glClientWaitSync\<close>
  returns.  The function returns \<open>true\<close>, returns \<open>false\<close>, or throws.
\<close>

definition waitForFrame :: "RendererImpl \<Rightarrow> nat \<Rightarrow> GLwait \<Rightarrow> error + (RendererImpl \<times> bool)" where
  "waitForFrame r frameIdx result =
     (if \<not> frameIdx < length (frames r) then Inl AssertionFailed
      else
        let frame = frames r ! frameIdx
        in if \<not> outstanding frame then Inl AssertionFailed
           else case fence frame of
                  None \<Rightarrow> Inl AssertionFailed
                | Some f \<Rightarrow>
                    let gl1 = glCalls r @ [glClientWaitSync f]
                    in case result of
                         GL_TIMEOUT_EXPIRED \<Rightarrow> Inr (r\<lparr> glCalls := gl1 \<rparr>, False)
                       | GL_WAIT_FAILED \<Rightarrow> Inl RuntimeError
                       | _ \<Rightarrow>
                           (case reclaimEphemeral (ephemeralBuffers frame)
                                   (buffers r, gl1 @ [glDeleteSync f]) of
                              Inl e \<Rightarrow> Inl e
                            | Inr (c, gl2) \<Rightarrow>
                                Inr (r\<lparr> buffers := c,
                                       glCalls := gl2,
                                       frames := (frames r)[frameIdx :=
                                          frame\<lparr> fence := None, ephemeralBuffers := [],
                                                 outstanding := False \<rparr>],
                                       lastSyncedFrame := max (lastSyncedFrame r) (lastFrameNum frame),
                                       lastSyncedRingBufPtr :=
                                          max (lastSyncedRingBufPtr r) (usedRingBufPtr frame) \<rparr>,
                                     True)))"

subsection \<open>Resizing the ring\<close>

text \<open>
  The first half of \<open>recreateRingBuffer\<close>, taken when a ring exists: the old ring becomes
  an owned buffer on the current frame's list.  \<open>frames.at\<close> throws when the index is out
  of range.
\<close>

definition retireRingBuffer :: "RendererImpl \<Rightarrow> error + RendererImpl" where
  "retireRingBuffer r =
     (if ringBufSize r = 0 then Inl AssertionFailed
      else
        let r1 = (if persistentMapInUse r
                  then r\<lparr> glCalls := glCalls r @ [glUnmapNamedBuffer (ringBuffer r)],
                          persistentMapping := None \<rparr>
                  else r);
            (c, h) = add_rc Buffer_ctor (buffers r1)
        in if \<not> currentFrameIdx r1 < length (frames r1) then Inl OutOfRange
           else
             let f = frames r1 ! currentFrameIdx r1;
                 b = \<lparr> buffer = ringBuffer r1, ringBufferAlloc = False, offset = 0,
                       size_gl = ringBufSize r1, type_gl = Everything \<rparr>
             in Inr (r1\<lparr> buffers := c\<lparr> resources := (resources c)(h \<mapsto> b) \<rparr>,
                         frames := (frames r1)[currentFrameIdx r1 :=
                                      f\<lparr> ephemeralBuffers := ephemeralBuffers f @ [h] \<rparr>],
                         ringBuffer := 0,
                         ringBufSize := 0,
                         ringBufPtr := 0 \<rparr>))"

text \<open>
  \<open>RendererImpl::recreateRingBuffer(newSize)\<close>; \<open>newName\<close> is the buffer name
  \<open>glCreateBuffers\<close> hands back.  \<open>bufferFlags\<close> is the list of the bits or-ed together.
\<close>

definition recreateRingBuffer :: "RendererImpl \<Rightarrow> u32 \<Rightarrow> nat \<Rightarrow> error + RendererImpl" where
  "recreateRingBuffer r newSize newName =
     (if \<not> newSize > 0 then Inl AssertionFailed
      else case (if ringBuffer r \<noteq> 0 then retireRingBuffer r else Inr r) of
             Inl e \<Rightarrow> Inl e
           | Inr r1 \<Rightarrow>
               let r2 = r1\<lparr> ringBuffer := newName, glCalls := glCalls r1 @ [glCreateBuffers newName] \<rparr>
               in if ringBuffer r2 = 0 then Inl AssertionFailed
                  else if ringBufSize r2 \<noteq> 0 then Inl AssertionFailed
                  else if ringBufPtr r2 \<noteq> 0 then Inl AssertionFailed
                  else if persistentMapping r2 \<noteq> None then Inl AssertionFailed
                  else
                    let inUse = \<not> tracing r2;
                        bufferFlags =
                          (if \<not> inUse then [GL_DYNAMIC_STORAGE_BIT]
                           else [GL_MAP_WRITE_BIT, GL_MAP_PERSISTENT_BIT, GL_MAP_COHERENT_BIT])
                          @ (if tracing r2 then [GL_MAP_READ_BIT] else []);
                        r3 = r2\<lparr> persistentMapInUse := inUse,
                                 ringBufSize := newSize,
                                 glCalls := glCalls r2
                                   @ [glNamedBufferStorage newName newSize bufferFlags] \<rparr>
                    in Inr (if inUse
                            then r3\<lparr> persistentMapping := Some newName,
                                     glCalls := glCalls r3
                                       @ [glMapNamedBufferRange newName newSize bufferFlags] \<rparr>
                            else r3))"

subsection \<open>Descriptor binding\<close>




text \<open>
  The four loops of \<open>rebindDescriptorSets\<close>.  Each yields the GL calls it makes, slot
  \<open>i\<close> counting up from the start of the pipeline's resource vector.
  \<open>descriptors.at\<close> throws on a missing key, \<open>boost::get\<close> on the wrong alternative.
\<close>

fun rebindUBOs :: "RendererImpl \<Rightarrow> u32 list \<Rightarrow> DSIndex list \<Rightarrow> nat \<Rightarrow> error + GLCall list" where
  "rebindUBOs r sizes [] i = Inr []"
| "rebindUBOs r sizes (x # xs) i =
     (case descriptors r x of
        None \<Rightarrow> Inl OutOfRange
      | Some (D_BufferHandle h) \<Rightarrow>
          (case get_rc (buffers r) h of
             Inl e \<Rightarrow> Inl e
           | Inr b \<Rightarrow>
               if \<not> (i < length sizes \<and> sizes ! i \<le> size_gl b) then Inl AssertionFailed
               else case rebindUBOs r sizes xs (Suc i) of
                      Inl e \<Rightarrow> Inl e
                    | Inr cs \<Rightarrow>
                        Inr (glBindBufferRange GL_UNIFORM_BUFFER i (buffer b) (offset b) (size_gl b) # cs))
      | Some _ \<Rightarrow> Inl BadGet)"

fun rebindSSBOs :: "RendererImpl \<Rightarrow> DSIndex list \<Rightarrow> nat \<Rightarrow> error + GLCall list" where
  "rebindSSBOs r [] i = Inr []"
| "rebindSSBOs r (x # xs) i =
     (case descriptors r x of
        None \<Rightarrow> Inl OutOfRange
      | Some (D_BufferHandle h) \<Rightarrow>
          (case get_rc (buffers r) h of
             Inl e \<Rightarrow> Inl e
           | Inr b \<Rightarrow>
               (case rebindSSBOs r xs (Suc i) of
                  Inl e \<Rightarrow> Inl e
                | Inr cs \<Rightarrow>
                    Inr (glBindBufferRange GL_SHADER_STORAGE_BUFFER i (buffer b) (offset b) (size_gl b) # cs)))
      | Some _ \<Rightarrow> Inl BadGet)"

fun rebindTextures :: "RendererImpl \<Rightarrow> DSIndex list \<Rightarrow> nat \<Rightarrow> error + GLCall list" where
  "rebindTextures r [] i = Inr []"
| "rebindTextures r (x # xs) i =
     (case descriptors r x of
        None \<Rightarrow> Inl OutOfRange
      | Some d \<Rightarrow>
          (case (case d of
                   D_CSampler (CSampler th sh) \<Rightarrow> get_rc (textures r) th
                 | D_TextureHandle th \<Rightarrow> get_rc (textures r) th
                 | _ \<Rightarrow> Inl Unreachable) of
             Inl e \<Rightarrow> Inl e
           | Inr t \<Rightarrow>
               (case rebindTextures r xs (Suc i) of
                  Inl e \<Rightarrow> Inl e
                | Inr cs \<Rightarrow> Inr (glBindTextureUnit i (tex t) # cs))))"

fun rebindSamplers :: "RendererImpl \<Rightarrow> DSIndex list \<Rightarrow> nat \<Rightarrow> error + GLCall list" where
  "rebindSamplers r [] i = Inr []"
| "rebindSamplers r (x # xs) i =
     (case descriptors r x of
        None \<Rightarrow> Inl OutOfRange
      | Some d \<Rightarrow>
          (case (case d of
                   D_CSampler (CSampler th sh) \<Rightarrow> get_rc (samplers r) sh
                 | D_SamplerHandle sh \<Rightarrow> get_rc (samplers r) sh
                 | _ \<Rightarrow> Inl Unreachable) of
             Inl e \<Rightarrow> Inl e
           | Inr s \<Rightarrow>
               (case rebindSamplers r xs (Suc i) of
                  Inl e \<Rightarrow> Inl e
                | Inr cs \<Rightarrow> Inr (glBindSampler i (sampler s) # cs))))"




subsection \<open>Construction, and reading a retirement\<close>

text \<open>
  \<open>RendererImpl::RendererImpl(desc)\<close>, before the ring is created: the members the
  initialiser list names (\<open>ringBuffer(0)\<close>, \<open>persistentMapInUse(false)\<close>,
  \<open>persistentMapping(nullptr)\<close>, \<open>decriptorSetsDirty(true)\<close>, \<open>tracing(desc.tracing)\<close>);
  the members of the base class are zero and empty, as the assertions of
  \<open>recreateRingBuffer\<close> on \<open>ringBufSize\<close> and \<open>ringBufPtr\<close> require.
\<close>

definition RendererImpl_ctor :: "bool \<Rightarrow> RendererImpl" where
  "RendererImpl_ctor tracing_desc =
     \<lparr> ringBuffer = 0, ringBufSize = 0, ringBufPtr = 0,
       persistentMapInUse = False, persistentMapping = None, tracing = tracing_desc,
       buffers = emptyContainer, samplers = emptyContainer, textures = emptyContainer,
       pipelines = emptyContainer, dsLayouts = emptyContainer,
       frames = [], currentFrameIdx = 0, lastSyncedFrame = 0, lastSyncedRingBufPtr = 0,
       currentPipeline = 0, descriptors = Map.empty, decriptorSetsDirty = True,
       inFrame = False, inRenderPass = False, validPipeline = False, pipelineDrawn = False,
       scissorSet = False, glCalls = [] \<rparr>"


text \<open>
  The \<open>glDeleteBuffers\<close> calls that retiring the buffers \<open>hs\<close> of a container issues: one
  for every buffer that is not ring-allocated, in the order of the list.
\<close>

definition ownedDeletes :: "Buffer ResourceContainer \<Rightarrow> handle list \<Rightarrow> GLCall list" where
  "ownedDeletes c hs =
     map (\<lambda>b. glDeleteBuffers (buffer b))
       (filter (\<lambda>b. \<not> ringBufferAlloc b) (map (\<lambda>h. the (resources c h)) hs))"

text \<open>The buffers a frame may hold: each handle once, live, non-empty and typed.\<close>

definition retirable :: "Buffer ResourceContainer \<Rightarrow> handle list \<Rightarrow> bool" where
  "retirable c hs =
     (distinct hs \<and>
      list_all (\<lambda>h. case resources c h of
                      None \<Rightarrow> False
                    | Some b \<Rightarrow> size_gl b > 0 \<and> type_gl b \<noteq> BufferType_Invalid) hs)"


subsection \<open>Renderer states used as concrete inputs\<close>

definition emptyFrame :: Frame where
  "emptyFrame = \<lparr> fence = None, usedRingBufPtr = 0, outstanding = False, lastFrameNum = 0,
                   ephemeralBuffers = [] \<rparr>"

text \<open>A renderer with two frame slots whose ring of 1024 bytes (GL name 1) exists.\<close>

definition demoRenderer :: RendererImpl where
  "demoRenderer =
     projr (recreateRingBuffer ((RendererImpl_ctor False)\<lparr> frames := [emptyFrame, emptyFrame] \<rparr>) 1024 1)"

text \<open>
  The ring has been resized to 2048 bytes (GL name 2) during frame 0, a uniform buffer of
  64 bytes has been allocated from the new ring, and frame 0 has been submitted with
  fence 9: the frame holds the retired ring (handle 1, owned) and the ring allocation
  (handle 2).
\<close>

definition demoOutstanding :: RendererImpl where
  "demoOutstanding =
     (let r1 = projr (recreateRingBuffer demoRenderer 2048 2);
          (c, h) = add_rc \<lparr> buffer = 2, ringBufferAlloc = True, offset = 0, size_gl = 64,
                          type_gl = Uniform \<rparr> (buffers r1);
          f = frames r1 ! 0
      in r1\<lparr> buffers := c,
             ringBufPtr := 64,
             frames := (frames r1)[0 := f\<lparr> fence := Some 9, outstanding := True,
                                            usedRingBufPtr := 64,
                                            ephemeralBuffers := ephemeralBuffers f @ [h] \<rparr>] \<rparr>)"

text \<open>
  Inside a render pass, with pipeline 1 bound and already drawn with.  Descriptor set
  layout 1 has a uniform buffer at binding 0 and a texture at binding 1; the shader of
  pipeline 1 samples no texture, so \<open>createPipeline\<close> has put only the uniform buffer
  into the pipeline's resources.  Buffer 1 is an owned uniform buffer of 64 bytes with GL
  name 7.
\<close>

definition demoDrawing :: RendererImpl where
  "demoDrawing =
     demoRenderer\<lparr>
       buffers := fst (add_rc \<lparr> buffer = 7, ringBufferAlloc = False, offset = 0, size_gl = 64,
                                type_gl = Uniform \<rparr> emptyContainer),
       dsLayouts := fst (add_rc [(UniformBuffer, 0), (Texture, 4)] emptyContainer),
       pipelines := fst (add_rc
          \<lparr> desc = \<lparr> renderPass_pd = 1, descriptorSetLayouts = [1], scissorTest = False \<rparr>,
            shader = 3,
            resources_p = \<lparr> ubos = [(0, 0)], ssbos = [], textures_sr = [], samplers_sr = [],
                            uboSizes = [16] \<rparr> \<rparr> emptyContainer),
       currentPipeline := 1,
       decriptorSetsDirty := False,
       inFrame := True, inRenderPass := True, validPipeline := True, pipelineDrawn := True \<rparr>"

section \<open>The render graph\<close>

text \<open>\<open>smaaDemo.cpp\<close>: the identifiers of render targets and render passes.\<close>

datatype Rendertargets =
    Rendertargets_Invalid
  | MainColor
  | MainDepth
  | Velocity
  | VelocityMS
  | Edges
  | BlendWeights
  | TemporalPrevious
  | TemporalCurrent
  | Subsample1
  | Subsample2
  | FinalRender

datatype RenderPasses =
    RenderPasses_Invalid
  | Scene
  | Final
  | GUI
  | FXAA
  | Separate
  | SMAAEdges
  | SMAAWeights
  | SMAABlend
  | SMAAEdges2
  | SMAAWeights2
  | SMAA2XBlend1
  | SMAA2XBlend2

text \<open>
  \<open>Format\<close>, \<open>Layout\<close> and \<open>PassBegin\<close> are declared in \<open>Renderer.h\<close>, which is not
  among the sources; the enumerators are the ones the sources name.
\<close>

datatype Format =
    Format_Invalid
  | R8 | RG8 | RGB8 | RGBA8 | sRGBA8
  | RG16Float | RGBA16Float | RGBA32Float
  | Depth16 | Depth16S8 | Depth24S8 | Depth24X8 | Depth32Float

datatype Layout =
    Undefined
  | ShaderRead
  | TransferSrc
  | TransferDst
  | ColorAttachment

datatype PassBegin = DontCare | Keep | Clear

text \<open>
  Modelled from the spec: \<open>currentLayouts[key]\<close> on a key that is absent inserts a
  value-initialised \<open>Layout\<close>, and the declaration of \<open>Layout\<close> that fixes this value is not
  among the sources.  The spec's data model names "undefined" as the layout of an image
  of which nothing is known.
\<close>

definition Layout_default :: Layout where
  "Layout_default = Undefined"

text \<open>A \<open>glm::vec4\<close> clear colour or a float is only copied: it is its bit pattern.\<close>

type_synonym vec4 = "u32 \<times> u32 \<times> u32 \<times> u32"

record RTInfo =
  id_rt :: Rendertargets
  passBegin :: PassBegin
  clearValue :: vec4

record PassDesc =
  depthStencil_pass :: Rendertargets
  colorRTs_pass :: "RTInfo list"
  inputRendertargets :: "Rendertargets list"
  numSamples_pass :: nat
  name_pass :: string
  clearDepthAttachment_pass :: bool
  depthClearValue_pass :: u32

text \<open>
  \<open>PassDesc::PassDesc()\<close>; \<open>n\<close> is \<open>MAX_COLOR_RENDERTARGETS\<close>, the length of the array
  \<open>colorRTs_\<close>.  The depth clear value is the float 1.0.
\<close>

definition PassDesc_ctor :: "nat \<Rightarrow> PassDesc" where
  "PassDesc_ctor n =
     \<lparr> depthStencil_pass = Rendertargets_Invalid,
       colorRTs_pass = replicate n \<lparr> id_rt = Rendertargets_Invalid, passBegin = DontCare,
                                      clearValue = (0, 0, 0, 0) \<rparr>,
       inputRendertargets = [],
       numSamples_pass = 1,
       name_pass = [],
       clearDepthAttachment_pass = False,
       depthClearValue_pass = 0x3F800000 \<rparr>"

text \<open>\<open>PassDesc::color(index, id, pb, clear)\<close> and \<open>PassDesc::inputRendertarget(id)\<close>.\<close>

definition color_pass :: "nat \<Rightarrow> Rendertargets \<Rightarrow> PassBegin \<Rightarrow> vec4 \<Rightarrow> PassDesc \<Rightarrow> error + PassDesc" where
  "color_pass index ident pb clear d =
     (if \<not> index < length (colorRTs_pass d) then Inl AssertionFailed
      else if ident = Rendertargets_Invalid then Inl AssertionFailed
      else
        let old = colorRTs_pass d ! index;
            new = old\<lparr> id_rt := ident, passBegin := pb,
                       clearValue := (if pb = Clear then clear else clearValue old) \<rparr>
        in Inr (d\<lparr> colorRTs_pass := (colorRTs_pass d)[index := new] \<rparr>))"

definition inputRendertarget :: "Rendertargets \<Rightarrow> PassDesc \<Rightarrow> error + PassDesc" where
  "inputRendertarget ident d =
     (if ident \<in> set (inputRendertargets d) then Inl AssertionFailed
      else Inr (d\<lparr> inputRendertargets := inputRendertargets d @ [ident] \<rparr>))"

text \<open>
  \<open>RenderPassDesc\<close>, \<open>RenderTargetDesc\<close> and \<open>FramebufferDesc\<close> are declared in
  \<open>Renderer.h\<close>; the fields are the ones \<open>build\<close> sets and \<open>OpenGLRenderer.cpp\<close> reads.
  A colour slot that is not used has the format \<open>Invalid\<close>, as
  \<open>isRenderPassCompatible\<close> expects.
\<close>

record RPColor =
  format_c :: Format
  passBegin_c :: PassBegin
  initialLayout :: Layout
  finalLayout :: Layout
  clearValue_c :: vec4

record RenderPassDesc =
  name_rp :: string
  numSamples_rp :: nat
  depthStencilFormat :: Format
  colorRTs_rp :: "RPColor list"
  clearDepthAttachment_rp :: bool
  depthClearValue_rp :: u32

definition RenderPassDesc_ctor :: "nat \<Rightarrow> RenderPassDesc" where
  "RenderPassDesc_ctor n =
     \<lparr> name_rp = [],
       numSamples_rp = 1,
       depthStencilFormat = Format_Invalid,
       colorRTs_rp = replicate n \<lparr> format_c = Format_Invalid, passBegin_c = DontCare,
                                    initialLayout = Undefined, finalLayout = Undefined,
                                    clearValue_c = (0, 0, 0, 0) \<rparr>,
       clearDepthAttachment_rp = False,
       depthClearValue_rp = 0x3F800000 \<rparr>"

text \<open>\<open>RenderPassDesc::color(index, format, passBegin, initial, final, clear)\<close>.\<close>

definition color_rp ::
  "nat \<Rightarrow> Format \<Rightarrow> PassBegin \<Rightarrow> Layout \<Rightarrow> Layout \<Rightarrow> vec4 \<Rightarrow> RenderPassDesc \<Rightarrow> RenderPassDesc" where
  "color_rp index fmt pb initial final clear d =
     d\<lparr> colorRTs_rp := (colorRTs_rp d)[index :=
          \<lparr> format_c = fmt, passBegin_c = pb, initialLayout = initial, finalLayout = final,
            clearValue_c = clear \<rparr>] \<rparr>"

record RenderTargetDesc =
  format_rt :: Format
  additionalViewFormat_rt :: Format
  width_rt :: u32
  height_rt :: u32
  numSamples_rt :: nat
  name_rt :: string

record FramebufferDesc =
  renderPass_fb :: handle
  name_fb :: string
  depthStencil_fb :: handle
  colors_fb :: "handle list"

text \<open>
  \<open>boost::variant<ExternalRT, InternalRT>\<close>.  \<open>ExternalRT\<close> carries format, initial layout,
  final layout and the handle bound for the frame; \<open>InternalRT\<close> the handle and the
  creation descriptor.
\<close>

datatype Rendertarget =
    ExternalRT Format Layout Layout handle
  | InternalRT handle RenderTargetDesc

fun getFormat :: "Rendertarget \<Rightarrow> Format" where
  "getFormat (ExternalRT fmt il fl h) = fmt"
| "getFormat (InternalRT h d) = format_rt d"

fun getHandle :: "Rendertarget \<Rightarrow> handle" where
  "getHandle (ExternalRT fmt il fl h) = h"
| "getHandle (InternalRT h d) = h"

fun isExternal :: "Rendertarget \<Rightarrow> bool" where
  "isExternal (ExternalRT fmt il fl h) = True"
| "isExternal (InternalRT h d) = False"

text \<open>
  \<open>boost::variant<Blit, RenderPasses, ResolveMSAA>\<close>; \<open>Blit\<close> and \<open>ResolveMSAA\<close> carry
  source, destination and the final layout that \<open>build\<close> fills in.
\<close>

datatype Operation =
    Blit Rendertargets Rendertargets Layout
  | RenderPassOp RenderPasses
  | ResolveMSAA Rendertargets Rendertargets Layout

datatype State = State_Invalid | Building | Ready | Rendering

text \<open>
  The graph's \<open>RenderPass\<close> (without the callback, which only \<open>render\<close> invokes) and the
  cached \<open>Pipeline\<close>, a pair of description and handle.
\<close>

record RenderPass_rg =
  handle_rp :: handle
  fb :: handle
  desc_rp :: PassDesc
  rpDesc :: RenderPassDesc

text \<open>
  The graph.  An \<open>unordered_map\<close> is the list of its entries in the order in which the
  loops of \<open>build\<close> and \<open>reset\<close> visit them, with no key twice; \<open>emplace\<close> appends.
\<close>

record 'a RenderGraph =
  state :: State
  hasExternalRTs :: bool
  currentRP :: RenderPasses
  operations :: "Operation list"
  finalTarget :: Rendertargets
  rendertargets :: "(Rendertargets \<times> Rendertarget) list"
  pipelines_rg :: "('a PipelineDesc_scheme \<times> handle) list"
  renderPasses :: "(RenderPasses \<times> RenderPass_rg) list"
  renderpassesWithExternalRTs :: "RenderPasses list"

subsection \<open>The backend, as the graph sees it\<close>

text \<open>
  Modelled from the spec: the class \<open>Renderer\<close> is declared in \<open>Renderer.h\<close>, which is not
  among the sources.  The spec (4.4) lists its operations: objects are created from a
  description and a handle comes back, objects are deleted by handle, and
  \<open>waitForDeviceIdle\<close> reports whether every frame has retired.  The backend here records
  the calls it receives, hands out the handles 1, 2, 3, ... and answers
  \<open>waitForDeviceIdle\<close> from the list \<open>idleAnswers\<close>; once the list is used up the device
  stays busy.  \<open>processEvents\<close> is the host callback of \<open>reset\<close>, recorded in the same log.
\<close>

datatype 'a RendererCall =
    createRenderTarget RenderTargetDesc
  | createRenderPass RenderPassDesc
  | createFramebuffer FramebufferDesc
  | createPipeline "'a PipelineDesc_scheme"
  | deletePipeline handle
  | deleteRenderTarget handle
  | deleteRenderPass handle
  | deleteFramebuffer handle
  | waitForDeviceIdle
  | processEvents

record 'a Renderer =
  calls :: "'a RendererCall list"
  handlesIssued :: nat
  idleAnswers :: "bool list"

definition backendCreate :: "'a RendererCall \<Rightarrow> 'a Renderer \<Rightarrow> 'a Renderer \<times> handle" where
  "backendCreate c r =
     (r\<lparr> calls := calls r @ [c], handlesIssued := Suc (handlesIssued r) \<rparr>, Suc (handlesIssued r))"

definition backendCall :: "'a RendererCall \<Rightarrow> 'a Renderer \<Rightarrow> 'a Renderer" where
  "backendCall c r = r\<lparr> calls := calls r @ [c] \<rparr>"

definition backendWaitForDeviceIdle :: "'a Renderer \<Rightarrow> 'a Renderer \<times> bool" where
  "backendWaitForDeviceIdle r =
     (case idleAnswers r of
        [] \<Rightarrow> (backendCall waitForDeviceIdle r, False)
      | a # as \<Rightarrow> (backendCall waitForDeviceIdle (r\<lparr> idleAnswers := as \<rparr>), a))"

subsection \<open>Declaring the graph\<close>

text \<open>
  \<open>emplace\<close> on a map: nothing is inserted when the key is present.  The maps of the
  graph are \<open>std::unordered_map\<close>s, whose iteration order C++ leaves open.  A map is
  here the list of its entries in insertion order, and a loop over the map visits them in
  that order; another order gives the entries of a map with several elements other
  backend handles, since \<open>build\<close> creates the backend objects in such loops.
\<close>

definition emplace :: "'k \<Rightarrow> 'v \<Rightarrow> ('k \<times> 'v) list \<Rightarrow> ('k \<times> 'v) list option" where
  "emplace k v m = (if k \<in> fst ` set m then None else Some (m @ [(k, v)]))"

text \<open>Writing through the iterator that \<open>find\<close> returned.\<close>

definition assign :: "'k \<Rightarrow> 'v \<Rightarrow> ('k \<times> 'v) list \<Rightarrow> ('k \<times> 'v) list" where
  "assign k v m = map (\<lambda>(k', v'). if k' = k then (k', v) else (k', v')) m"

text \<open>\<open>RenderGraph::renderTarget(rt, desc)\<close>; the handle of the new entry is the null handle.\<close>

definition renderTarget :: "Rendertargets \<Rightarrow> RenderTargetDesc \<Rightarrow> 'a RenderGraph \<Rightarrow> error + 'a RenderGraph" where
  "renderTarget rt d g =
     (if state g \<noteq> Building then Inl AssertionFailed
      else if rt = Rendertargets_Invalid then Inl AssertionFailed
      else case emplace rt (InternalRT 0 d) (rendertargets g) of
             None \<Rightarrow> Inl AssertionFailed
           | Some m \<Rightarrow> Inr (g\<lparr> rendertargets := m \<rparr>))"

text \<open>\<open>RenderGraph::externalRenderTarget(rt, format, initialLayout, finalLayout)\<close>.\<close>

definition externalRenderTarget ::
  "Rendertargets \<Rightarrow> Format \<Rightarrow> Layout \<Rightarrow> Layout \<Rightarrow> 'a RenderGraph \<Rightarrow> error + 'a RenderGraph" where
  "externalRenderTarget rt fmt il fl g =
     (if state g \<noteq> Building then Inl AssertionFailed
      else if rt = Rendertargets_Invalid then Inl AssertionFailed
      else case emplace rt (ExternalRT fmt il fl 0) (rendertargets g) of
             None \<Rightarrow> Inl AssertionFailed
           | Some m \<Rightarrow> Inr (g\<lparr> hasExternalRTs := True, rendertargets := m \<rparr>))"

text \<open>
  \<open>RenderGraph::renderPass(rp, desc, f)\<close>.  The new pass has null handles and a
  default-constructed \<open>rpDesc\<close> with as many colour slots as \<open>desc\<close>.
\<close>

definition renderPass :: "RenderPasses \<Rightarrow> PassDesc \<Rightarrow> 'a RenderGraph \<Rightarrow> error + 'a RenderGraph" where
  "renderPass rp d g =
     (if state g \<noteq> Building then Inl AssertionFailed
      else case emplace rp \<lparr> handle_rp = 0, fb = 0, desc_rp = d,
                             rpDesc = RenderPassDesc_ctor (length (colorRTs_pass d)) \<rparr>
                  (renderPasses g) of
             None \<Rightarrow> Inl AssertionFailed
           | Some m \<Rightarrow> Inr (g\<lparr> renderPasses := m, operations := operations g @ [RenderPassOp rp] \<rparr>))"

text \<open>
  \<open>RenderGraph::blit\<close> and \<open>RenderGraph::resolveMSAA\<close> leave \<open>finalLayout\<close> unset; \<open>build\<close>
  writes it before anything reads it.
\<close>

definition blit :: "Rendertargets \<Rightarrow> Rendertargets \<Rightarrow> 'a RenderGraph \<Rightarrow> error + 'a RenderGraph" where
  "blit source dest g =
     (if state g \<noteq> Building then Inl AssertionFailed
      else Inr (g\<lparr> operations := operations g @ [Blit source dest Layout_default] \<rparr>))"

definition resolveMSAA :: "Rendertargets \<Rightarrow> Rendertargets \<Rightarrow> 'a RenderGraph \<Rightarrow> error + 'a RenderGraph" where
  "resolveMSAA source dest g =
     (if state g \<noteq> Building then Inl AssertionFailed
      else Inr (g\<lparr> operations := operations g @ [ResolveMSAA source dest Layout_default] \<rparr>))"

definition presentRenderTarget :: "Rendertargets \<Rightarrow> 'a RenderGraph \<Rightarrow> error + 'a RenderGraph" where
  "presentRenderTarget rt g =
     (if state g \<noteq> Building then Inl AssertionFailed
      else if rt = Rendertargets_Invalid then Inl AssertionFailed
      else Inr (g\<lparr> finalTarget := rt \<rparr>))"

subsection \<open>build: layout inference\<close>

type_synonym Layouts = "Rendertargets \<rightharpoonup> Layout"

text \<open>\<open>currentLayouts[key]\<close> read as a value: the entry, inserted first when absent.\<close>

definition layoutAt :: "Layouts \<Rightarrow> Rendertargets \<Rightarrow> Layouts \<times> Layout" where
  "layoutAt cl k = (case cl k of None \<Rightarrow> (cl(k \<mapsto> Layout_default), Layout_default)
                               | Some l \<Rightarrow> (cl, l))"

text \<open>
  The seed of the backward pass: the present target is transfer-source, then every
  external target is given its declared final layout.
\<close>

fun externalFinalLayouts :: "(Rendertargets \<times> Rendertarget) list \<Rightarrow> Layouts \<Rightarrow> Layouts" where
  "externalFinalLayouts [] cl = cl"
| "externalFinalLayouts ((k, ExternalRT fmt il fl h) # rts) cl = externalFinalLayouts rts (cl(k \<mapsto> fl))"
| "externalFinalLayouts ((k, InternalRT h d) # rts) cl = externalFinalLayouts rts cl"

definition initialLayouts :: "'a RenderGraph \<Rightarrow> Layouts" where
  "initialLayouts g = externalFinalLayouts (rendertargets g) (Map.empty(finalTarget g \<mapsto> TransferSrc))"

text \<open>
  The loop over the colour attachments in \<open>LayoutVisitor::operator()(RenderPasses &)\<close>;
  \<open>i\<close> is the slot.
\<close>

fun inferColors ::
  "(Rendertargets \<times> Rendertarget) list \<Rightarrow> RTInfo list \<Rightarrow> nat \<Rightarrow> RenderPassDesc \<Rightarrow> Layouts
     \<Rightarrow> error + (RenderPassDesc \<times> Layouts)" where
  "inferColors rts [] i rpd cl = Inr (rpd, cl)"
| "inferColors rts (rt # rest) i rpd cl =
     (if id_rt rt \<noteq> Rendertargets_Invalid then
        (case map_of rts (id_rt rt) of
           None \<Rightarrow> Inl AssertionFailed
         | Some t \<Rightarrow>
             let fmt = getFormat t
             in if fmt = Format_Invalid then Inl AssertionFailed
                else
                  let pb = passBegin rt;
                      initial = (if pb = Keep then ColorAttachment else Undefined);
                      final = (case cl (id_rt rt) of None \<Rightarrow> ColorAttachment | Some l \<Rightarrow> l)
                  in if final = Undefined then Inl AssertionFailed
                     else if final = TransferDst then Inl AssertionFailed
                     else inferColors rts rest (Suc i)
                            (color_rp i fmt pb initial final (clearValue rt) rpd)
                            (cl(id_rt rt \<mapsto> initial)))
      else inferColors rts rest (Suc i) rpd cl)"

text \<open>The depth attachment part of the same visitor.\<close>

definition inferDepth ::
  "(Rendertargets \<times> Rendertarget) list \<Rightarrow> PassDesc \<Rightarrow> RenderPassDesc \<Rightarrow> error + RenderPassDesc" where
  "inferDepth rts d rpd =
     (if depthStencil_pass d \<noteq> Rendertargets_Invalid then
        (case map_of rts (depthStencil_pass d) of
           None \<Rightarrow> Inl AssertionFailed
         | Some t \<Rightarrow>
             if getFormat t = Format_Invalid then Inl AssertionFailed
             else
               let rpd1 = rpd\<lparr> depthStencilFormat := getFormat t \<rparr>
               in Inr (if clearDepthAttachment_pass d
                       then rpd1\<lparr> clearDepthAttachment_rp := True,
                                  depthClearValue_rp := depthClearValue_pass d \<rparr>
                       else rpd1))
      else Inr rpd)"

text \<open>\<open>LayoutVisitor::operator()(RenderPasses &rpId)\<close>.\<close>

definition layoutRenderPass ::
  "'a RenderGraph \<Rightarrow> RenderPasses \<Rightarrow> Layouts \<Rightarrow> error + ('a RenderGraph \<times> Layouts)" where
  "layoutRenderPass g rpId cl =
     (case map_of (renderPasses g) rpId of
        None \<Rightarrow> Inl AssertionFailed
      | Some rp \<Rightarrow>
          let d = desc_rp rp;
              rpd0 = (rpDesc rp)\<lparr> name_rp := name_pass d, numSamples_rp := numSamples_pass d \<rparr>
          in case inferDepth (rendertargets g) d rpd0 of
               Inl e \<Rightarrow> Inl e
             | Inr rpd1 \<Rightarrow>
                 (case inferColors (rendertargets g) (colorRTs_pass d) 0 rpd1 cl of
                    Inl e \<Rightarrow> Inl e
                  | Inr (rpd2, cl2) \<Rightarrow>
                      Inr (g\<lparr> renderPasses := assign rpId (rp\<lparr> rpDesc := rpd2 \<rparr>) (renderPasses g) \<rparr>,
                           fold (\<lambda>inputRT c. c(inputRT \<mapsto> ShaderRead)) (inputRendertargets d) cl2)))"

text \<open>The visitor applied to one operation.\<close>

fun layoutOperation ::
  "'a RenderGraph \<Rightarrow> Operation \<Rightarrow> Layouts \<Rightarrow> error + ('a RenderGraph \<times> Operation \<times> Layouts)" where
  "layoutOperation g (Blit source dest fl) cl =
     (let (cl1, l) = layoutAt cl dest in Inr (g, Blit source dest l, cl1(source \<mapsto> TransferSrc)))"
| "layoutOperation g (RenderPassOp rpId) cl =
     (case layoutRenderPass g rpId cl of
        Inl e \<Rightarrow> Inl e
      | Inr (g', cl') \<Rightarrow> Inr (g', RenderPassOp rpId, cl'))"
| "layoutOperation g (ResolveMSAA source dest fl) cl =
     (let (cl1, l) = layoutAt cl dest in Inr (g, ResolveMSAA source dest l, cl1(source \<mapsto> TransferSrc)))"

text \<open>
  The backward pass \<open>for (it = operations.rbegin(); it != operations.rend(); it++)\<close>: the
  operations after the head are visited first, then the head.
\<close>

fun inferLayouts ::
  "'a RenderGraph \<Rightarrow> Operation list \<Rightarrow> Layouts \<Rightarrow> error + ('a RenderGraph \<times> Operation list \<times> Layouts)" where
  "inferLayouts g [] cl = Inr (g, [], cl)"
| "inferLayouts g (op # ops) cl =
     (case inferLayouts g ops cl of
        Inl e \<Rightarrow> Inl e
      | Inr (g1, ops1, cl1) \<Rightarrow>
          (case layoutOperation g1 op cl1 of
             Inl e \<Rightarrow> Inl e
           | Inr (g2, op2, cl2) \<Rightarrow> Inr (g2, op2 # ops1, cl2)))"

subsection \<open>build: backend objects\<close>

text \<open>The first loop of \<open>build\<close>: every internal render target is created.\<close>

fun createInternalTargets ::
  "(Rendertargets \<times> Rendertarget) list \<Rightarrow> 'a Renderer
     \<Rightarrow> error + ((Rendertargets \<times> Rendertarget) list \<times> 'a Renderer)" where
  "createInternalTargets [] r = Inr ([], r)"
| "createInternalTargets ((k, t) # rts) r =
     (if k = Rendertargets_Invalid then Inl AssertionFailed
      else
        let (t', r1) = (case t of
                          ExternalRT fmt il fl h \<Rightarrow> (t, r)
                        | InternalRT h d \<Rightarrow>
                            (let (r', h') = backendCreate (createRenderTarget d) r
                             in (InternalRT h' d, r')))
        in case createInternalTargets rts r1 of
             Inl e \<Rightarrow> Inl e
           | Inr (rts', r2) \<Rightarrow> Inr ((k, t') # rts', r2))"

text \<open>The colour loop of \<open>buildRenderPassFramebuffer\<close>.\<close>

fun framebufferColors ::
  "(Rendertargets \<times> Rendertarget) list \<Rightarrow> RTInfo list \<Rightarrow> nat \<Rightarrow> FramebufferDesc
     \<Rightarrow> error + FramebufferDesc" where
  "framebufferColors rts [] i fbd = Inr fbd"
| "framebufferColors rts (rt # rest) i fbd =
     (if id_rt rt \<noteq> Rendertargets_Invalid then
        (case map_of rts (id_rt rt) of
           None \<Rightarrow> Inl AssertionFailed
         | Some t \<Rightarrow>
             framebufferColors rts rest (Suc i)
               (fbd\<lparr> colors_fb := (colors_fb fbd)[i := getHandle t] \<rparr>))
      else framebufferColors rts rest (Suc i) fbd)"

text \<open>\<open>RenderGraph::buildRenderPassFramebuffer(renderer, rp)\<close>.\<close>

definition buildRenderPassFramebuffer ::
  "(Rendertargets \<times> Rendertarget) list \<Rightarrow> 'a Renderer \<Rightarrow> RenderPass_rg
     \<Rightarrow> error + (RenderPass_rg \<times> 'a Renderer)" where
  "buildRenderPassFramebuffer rts r rp =
     (let d = desc_rp rp;
          fbd0 = \<lparr> renderPass_fb = handle_rp rp, name_fb = name_pass d, depthStencil_fb = 0,
                   colors_fb = replicate (length (colorRTs_pass d)) 0 \<rparr>
      in case (if depthStencil_pass d \<noteq> Rendertargets_Invalid then
                 (case map_of rts (depthStencil_pass d) of
                    None \<Rightarrow> Inl AssertionFailed
                  | Some t \<Rightarrow> Inr (fbd0\<lparr> depthStencil_fb := getHandle t \<rparr>))
               else Inr fbd0) of
           Inl e \<Rightarrow> Inl e
         | Inr fbd1 \<Rightarrow>
             (case framebufferColors rts (colorRTs_pass d) 0 fbd1 of
                Inl e \<Rightarrow> Inl e
              | Inr fbd2 \<Rightarrow>
                  let (r', fbHandle) = backendCreate (createFramebuffer fbd2) r
                  in if fbHandle = 0 then Inl AssertionFailed
                     else Inr (rp\<lparr> fb := fbHandle \<rparr>, r')))"

text \<open>
  The search for an external colour attachment; the loop stops at the first one it
  finds.
\<close>

fun hasExternalColor :: "(Rendertargets \<times> Rendertarget) list \<Rightarrow> RTInfo list \<Rightarrow> error + bool" where
  "hasExternalColor rts [] = Inr False"
| "hasExternalColor rts (rt # rest) =
     (if id_rt rt \<noteq> Rendertargets_Invalid then
        (case map_of rts (id_rt rt) of
           None \<Rightarrow> Inl AssertionFailed
         | Some t \<Rightarrow> if isExternal t then Inr True else hasExternalColor rts rest)
      else hasExternalColor rts rest)"

text \<open>
  The loop of \<open>build\<close> over \<open>renderPasses\<close>: the backend render pass is created from the
  resolved description, and the framebuffer unless the pass has an external attachment.
\<close>

fun createPasses ::
  "(Rendertargets \<times> Rendertarget) list \<Rightarrow> (RenderPasses \<times> RenderPass_rg) list
     \<Rightarrow> RenderPasses list \<Rightarrow> 'a Renderer
     \<Rightarrow> error + ((RenderPasses \<times> RenderPass_rg) list \<times> RenderPasses list \<times> 'a Renderer)" where
  "createPasses rts [] ext r = Inr ([], ext, r)"
| "createPasses rts ((k, temp) # ps) ext r =
     (if handle_rp temp \<noteq> 0 then Inl AssertionFailed
      else
        let (r1, rpHandle) = backendCreate (createRenderPass (rpDesc temp)) r
        in if rpHandle = 0 then Inl AssertionFailed
           else if fb temp \<noteq> 0 then Inl AssertionFailed
           else case hasExternalColor rts (colorRTs_pass (desc_rp temp)) of
                  Inl e \<Rightarrow> Inl e
                | Inr hasExternal \<Rightarrow>
                    (case (if \<not> hasExternal
                           then (case buildRenderPassFramebuffer rts r1 (temp\<lparr> handle_rp := rpHandle \<rparr>) of
                                   Inl e \<Rightarrow> Inl e
                                 | Inr (temp', r2) \<Rightarrow> Inr (temp', ext, r2))
                           else if k \<in> set ext then Inl AssertionFailed
                           else Inr (temp\<lparr> handle_rp := rpHandle \<rparr>, ext @ [k], r1)) of
                       Inl e \<Rightarrow> Inl e
                     | Inr (temp', ext', r2) \<Rightarrow>
                         (case createPasses rts ps ext' r2 of
                            Inl e \<Rightarrow> Inl e
                          | Inr (ps', ext'', r3) \<Rightarrow> Inr ((k, temp') # ps', ext'', r3))))"

text \<open>
  \<open>RenderGraph::build(renderer)\<close>.  The closing block that logs the graph changes nothing
  and is left out.
\<close>

definition build :: "'a RenderGraph \<Rightarrow> 'a Renderer \<Rightarrow> error + ('a RenderGraph \<times> 'a Renderer)" where
  "build g r =
     (if state g \<noteq> Building then Inl AssertionFailed
      else if finalTarget g = Rendertargets_Invalid then Inl AssertionFailed
      else case createInternalTargets (rendertargets g) r of
             Inl e \<Rightarrow> Inl e
           | Inr (rts, r1) \<Rightarrow>
               let g1 = g\<lparr> state := Ready, rendertargets := rts \<rparr>
               in case inferLayouts g1 (operations g1) (initialLayouts g1) of
                    Inl e \<Rightarrow> Inl e
                  | Inr (g2, ops, cl) \<Rightarrow>
                      (case createPasses (rendertargets g2) (renderPasses g2)
                              (renderpassesWithExternalRTs g2) r1 of
                         Inl e \<Rightarrow> Inl e
                       | Inr (ps, ext, r2) \<Rightarrow>
                           Inr (g2\<lparr> operations := ops, renderPasses := ps,
                                    renderpassesWithExternalRTs := ext \<rparr>, r2)))"

subsection \<open>reset\<close>

text \<open>The loop of \<open>reset\<close> over the pipeline cache.\<close>

fun deletePipelines :: "('a PipelineDesc_scheme \<times> handle) list \<Rightarrow> 'a Renderer \<Rightarrow> 'a Renderer" where
  "deletePipelines [] r = r"
| "deletePipelines ((d, h) # ps) r = deletePipelines ps (backendCall (deletePipeline h) r)"

text \<open>The loop over the render targets: internal ones are deleted, external ones skipped.\<close>

fun deleteTargets :: "(Rendertargets \<times> Rendertarget) list \<Rightarrow> 'a Renderer \<Rightarrow> error + 'a Renderer" where
  "deleteTargets [] r = Inr r"
| "deleteTargets ((k, t) # rts) r =
     (if k = Rendertargets_Invalid then Inl AssertionFailed
      else case t of
             ExternalRT fmt il fl h \<Rightarrow> deleteTargets rts r
           | InternalRT h d \<Rightarrow>
               if h = 0 then Inl AssertionFailed
               else deleteTargets rts (backendCall (deleteRenderTarget h) r))"

text \<open>The loop over the render passes: render pass and framebuffer of each are deleted.\<close>

fun deletePasses :: "(RenderPasses \<times> RenderPass_rg) list \<Rightarrow> 'a Renderer \<Rightarrow> 'a Renderer" where
  "deletePasses [] r = r"
| "deletePasses ((k, rp) # ps) r =
     (let r1 = (if handle_rp rp \<noteq> 0 then backendCall (deleteRenderPass (handle_rp rp)) r else r);
          r2 = (if fb rp \<noteq> 0 then backendCall (deleteFramebuffer (fb rp)) r1 else r1)
      in deletePasses ps r2)"

text \<open>
  \<open>while (!renderer.waitForDeviceIdle()) { processEvents(); }\<close>.  The loop need not
  end: not returning is \<open>None\<close>.
\<close>

partial_function (option) waitUntilIdle :: "'a Renderer \<Rightarrow> 'a Renderer option" where
  "waitUntilIdle r =
     (case backendWaitForDeviceIdle r of
        (r', idle) \<Rightarrow> if idle then Some r' else waitUntilIdle (backendCall processEvents r'))"

text \<open>
  \<open>RenderGraph::reset(renderer, processEvents)\<close>, statement by statement.
  \<open>renderPasses.clear()\<close> is the fourth statement of the function; the loop that deletes the
  backend render passes and framebuffers runs later, over the map as it is then.
\<close>

definition reset :: "'a RenderGraph \<Rightarrow> 'a Renderer \<Rightarrow> (error + ('a RenderGraph \<times> 'a Renderer)) option" where
  "reset g r =
     (if \<not> (state g = State_Invalid \<or> state g = Ready) then Some (Inl AssertionFailed)
      else
        let g1 = g\<lparr> state := Building, renderPasses := [], renderpassesWithExternalRTs := [],
                    hasExternalRTs := False \<rparr>;
            r1 = deletePipelines (pipelines_rg g1) r;
            g2 = g1\<lparr> pipelines_rg := [] \<rparr>
        in case deleteTargets (rendertargets g2) r1 of
             Inl e \<Rightarrow> Some (Inl e)
           | Inr r2 \<Rightarrow>
               let g3 = g2\<lparr> rendertargets := [] \<rparr>;
                   r3 = deletePasses (renderPasses g3) r2;
                   g4 = g3\<lparr> renderPasses := [], operations := [] \<rparr>
               in case waitUntilIdle r3 of
                    None \<Rightarrow> None
                  | Some r4 \<Rightarrow> Some (Inr (g4, r4)))"

subsection \<open>The pipeline cache\<close>

text \<open>The linear scan \<open>for (const auto &pipeline : pipelines)\<close>.\<close>

fun findPipeline :: "('a PipelineDesc_scheme \<times> handle) list \<Rightarrow> 'a PipelineDesc_scheme \<Rightarrow> handle option" where
  "findPipeline [] d = None"
| "findPipeline ((d', h) # ps) d = (if d' = d then Some h else findPipeline ps d)"

text \<open>
  \<open>RenderGraph::createPipeline(renderer, rp, desc)\<close>.  \<open>desc\<close> is passed by reference and
  comes back with its render pass set.
\<close>

definition createPipeline_rg ::
  "'a RenderGraph \<Rightarrow> 'a Renderer \<Rightarrow> RenderPasses \<Rightarrow> 'a PipelineDesc_scheme
     \<Rightarrow> error + (handle \<times> 'a RenderGraph \<times> 'a Renderer \<times> 'a PipelineDesc_scheme)" where
  "createPipeline_rg g r rp d =
     (if \<not> (state g = Ready \<or> state g = Rendering) then Inl AssertionFailed
      else case map_of (renderPasses g) rp of
             None \<Rightarrow> Inl AssertionFailed
           | Some pass \<Rightarrow>
               let d1 = d\<lparr> renderPass_pd := handle_rp pass \<rparr>
               in case findPipeline (pipelines_rg g) d1 of
                    Some h \<Rightarrow> Inr (h, g, r, d1)
                  | None \<Rightarrow>
                      let (r', h) = backendCreate (createPipeline d1) r
                      in Inr (h, g\<lparr> pipelines_rg := pipelines_rg g @ [(d1, h)] \<rparr>, r', d1))"

subsection \<open>Reading a built graph, and the example graph of the spec\<close>

text \<open>
  What \<open>build\<close> has resolved for the used colour slots of a pass: begin behaviour,
  initial layout and final layout, slot by slot.
\<close>

definition colorLayouts :: "'a RenderGraph \<Rightarrow> RenderPasses \<Rightarrow> (PassBegin \<times> Layout \<times> Layout) list" where
  "colorLayouts g rp =
     (case map_of (renderPasses g) rp of
        None \<Rightarrow> []
      | Some p \<Rightarrow>
          map (\<lambda>(rt, c). (passBegin_c c, initialLayout c, finalLayout c))
            (filter (\<lambda>(rt, c). id_rt rt \<noteq> Rendertargets_Invalid)
               (zip (colorRTs_pass (desc_rp p)) (colorRTs_rp (rpDesc p)))))"

text \<open>Sequencing of steps that may fail.\<close>

definition thenE :: "error + 'a \<Rightarrow> ('a \<Rightarrow> error + 'b) \<Rightarrow> error + 'b" where
  "thenE x f = (case x of Inl e \<Rightarrow> Inl e | Inr v \<Rightarrow> f v)"

text \<open>
  A graph right after \<open>reset\<close>, and a backend that has received no call yet and will give
  the listed answers to \<open>waitForDeviceIdle\<close>.
\<close>

definition emptyGraph :: "'a RenderGraph" where
  "emptyGraph =
     \<lparr> state = Building, hasExternalRTs = False, currentRP = RenderPasses_Invalid,
       operations = [], finalTarget = Rendertargets_Invalid, rendertargets = [],
       pipelines_rg = [], renderPasses = [], renderpassesWithExternalRTs = [] \<rparr>"

definition freshBackend :: "bool list \<Rightarrow> 'a Renderer" where
  "freshBackend answers = \<lparr> calls = [], handlesIssued = 0, idleAnswers = answers \<rparr>"

text \<open>
  The example of the spec (section 8): internal targets \<open>A\<close> and \<open>B\<close>; pass \<open>P1\<close> writes
  \<open>A\<close> with begin = Clear; pass \<open>P2\<close> reads \<open>A\<close> as input and writes \<open>B\<close> with begin =
  Clear; \<open>B\<close> is the present target.  \<open>n\<close> is the number of colour slots of a pass.
\<close>

definition specExampleGraph ::
  "nat \<Rightarrow> Rendertargets \<Rightarrow> RenderTargetDesc \<Rightarrow> Rendertargets \<Rightarrow> RenderTargetDesc
     \<Rightarrow> RenderPasses \<Rightarrow> RenderPasses \<Rightarrow> error + 'a RenderGraph" where
  "specExampleGraph n A dA B dB P1 P2 =
     thenE (renderTarget A dA emptyGraph) (\<lambda>g1.
     thenE (renderTarget B dB g1) (\<lambda>g2.
     thenE (color_pass 0 A Clear (0, 0, 0, 0) (PassDesc_ctor n)) (\<lambda>pd1.
     thenE (renderPass P1 pd1 g2) (\<lambda>g3.
     thenE (color_pass 0 B Clear (0, 0, 0, 0) (PassDesc_ctor n)) (\<lambda>pd2a.
     thenE (inputRendertarget A pd2a) (\<lambda>pd2.
     thenE (renderPass P2 pd2 g3) (\<lambda>g4.
     presentRenderTarget B g4)))))))"

text \<open>
  A graph with one pass that keeps the contents of the present target: target \<open>B\<close>,
  pass \<open>P\<close> writing \<open>B\<close> with begin = Keep, \<open>B\<close> presented.
\<close>

definition keepExampleGraph ::
  "nat \<Rightarrow> Rendertargets \<Rightarrow> RenderTargetDesc \<Rightarrow> RenderPasses \<Rightarrow> error + 'a RenderGraph" where
  "keepExampleGraph n B dB P =
     thenE (renderTarget B dB emptyGraph) (\<lambda>g1.
     thenE (color_pass 0 B Keep (0, 0, 0, 0) (PassDesc_ctor n)) (\<lambda>pd.
     thenE (renderPass P pd g1) (\<lambda>g2.
     presentRenderTarget B g2)))"

text \<open>The layouts \<open>build\<close> resolves for a pass of a declared graph, on a fresh backend.\<close>

definition builtLayouts ::
  "error + unit RenderGraph \<Rightarrow> RenderPasses \<Rightarrow> error + (PassBegin \<times> Layout \<times> Layout) list" where
  "builtLayouts declared rp =
     thenE declared (\<lambda>g.
     thenE (build g (freshBackend [])) (\<lambda>(g', r'). Inr (colorLayouts g' rp)))"

text \<open>The handles of the internal render targets of a graph, in the order of the map.\<close>

fun internalHandles :: "(Rendertargets \<times> Rendertarget) list \<Rightarrow> handle list" where
  "internalHandles [] = []"
| "internalHandles ((k, ExternalRT fmt il fl h) # rts) = internalHandles rts"
| "internalHandles ((k, InternalRT h d) # rts) = h # internalHandles rts"

text \<open>What \<open>reset\<close> requires of the render targets: no invalid key, no null internal handle.\<close>

fun targetsDeletable :: "(Rendertargets \<times> Rendertarget) list \<Rightarrow> bool" where
  "targetsDeletable [] = True"
| "targetsDeletable ((k, ExternalRT fmt il fl h) # rts) =
     (k \<noteq> Rendertargets_Invalid \<and> targetsDeletable rts)"
| "targetsDeletable ((k, InternalRT h d) # rts) =
     (k \<noteq> Rendertargets_Invalid \<and> h \<noteq> 0 \<and> targetsDeletable rts)"

text \<open>
  A declared graph is built on a fresh backend: the backend render pass and framebuffer
  handles of its passes.
\<close>

definition builtPassHandles :: "error + unit RenderGraph \<Rightarrow> error + (handle \<times> handle) list" where
  "builtPassHandles declared =
     thenE declared (\<lambda>g.
     thenE (build g (freshBackend [])) (\<lambda>(g', r').
       Inr (map (\<lambda>(k, p). (handle_rp p, fb p)) (renderPasses g'))))"

text \<open>
  The same graph is built and then reset, the device answering \<open>waitForDeviceIdle\<close> as
  listed: the backend calls made by \<open>reset\<close> alone.
\<close>

definition resetCalls ::
  "error + unit RenderGraph \<Rightarrow> bool list \<Rightarrow> (error + unit RendererCall list) option" where
  "resetCalls declared answers =
     (case thenE declared (\<lambda>g. build g (freshBackend answers)) of
        Inl e \<Rightarrow> Some (Inl e)
      | Inr (g', r') \<Rightarrow>
          (case reset g' r' of
             None \<Rightarrow> None
           | Some (Inl e) \<Rightarrow> Some (Inl e)
           | Some (Inr (g'', r'')) \<Rightarrow> Some (Inr (drop (length (calls r')) (calls r'')))))"

subsection \<open>Graphs used as concrete inputs\<close>

text \<open>An internal target of 1280 by 720 pixels with one sample.\<close>

definition targetDesc :: "Format \<Rightarrow> string \<Rightarrow> RenderTargetDesc" where
  "targetDesc fmt nm =
     \<lparr> format_rt = fmt, additionalViewFormat_rt = Format_Invalid, width_rt = 1280,
       height_rt = 720, numSamples_rt = 1, name_rt = nm \<rparr>"

text \<open>
  The example of the spec with two colour slots per pass: \<open>A\<close> is \<open>MainColor\<close>, \<open>B\<close> is
  \<open>FinalRender\<close>, \<open>P1\<close> is \<open>Scene\<close> and \<open>P2\<close> is \<open>Final\<close>.
\<close>

definition demoGraph :: "error + unit RenderGraph" where
  "demoGraph =
     specExampleGraph 2 MainColor (targetDesc RGBA8 ''A'') FinalRender (targetDesc sRGBA8 ''B'')
       Scene Final"

definition demoKeepGraph :: "error + unit RenderGraph" where
  "demoKeepGraph = keepExampleGraph 2 FinalRender (targetDesc sRGBA8 ''B'') Final"

text \<open>The graph and the backend after \<open>build\<close> of \<open>demoGraph\<close>.\<close>

definition demoBuilt :: "bool list \<Rightarrow> unit RenderGraph \<times> unit Renderer" where
  "demoBuilt answers = projr (thenE demoGraph (\<lambda>g. build g (freshBackend answers)))"

text \<open>
  The graph and the backend after \<open>build\<close> of \<open>demoKeepGraph\<close>, which has one render
  target and one pass: the backend has created the target (handle 1), the render pass
  (handle 2) and the framebuffer (handle 3).
\<close>

definition demoKeepBuilt :: "unit RenderGraph \<times> unit Renderer" where
  "demoKeepBuilt = projr (thenE demoKeepGraph (\<lambda>g. build g (freshBackend [])))"

subsection \<open>What is said of the resolved description of a pass\<close>

text \<open>The resolved description has one colour slot for each slot of the declaration.\<close>

definition slotsMatch :: "RenderPass_rg \<Rightarrow> bool" where
  "slotsMatch p = (length (colorRTs_rp (rpDesc p)) = length (colorRTs_pass (desc_rp p)))"

text \<open>
  Every used colour slot has the initial layout undefined, or colour-attachment when its
  begin behaviour is Keep.
\<close>

definition initialLayoutsResolved :: "RenderPass_rg \<Rightarrow> bool" where
  "initialLayoutsResolved p =
     list_all (\<lambda>(rt, c). id_rt rt \<noteq> Rendertargets_Invalid \<longrightarrow>
                  initialLayout c = (if passBegin rt = Keep then ColorAttachment else Undefined))
       (zip (colorRTs_pass (desc_rp p)) (colorRTs_rp (rpDesc p)))"

section \<open>Properties of the ephemeral ring allocator\<close>

subsection \<open>Word arithmetic of the alignment\<close>

lemma and_not_255: "unat ((p::u32) AND NOT 255) = unat p div 256 * 256"
proof -
  have m: "(255::u32) = mask 8" by (simp add: mask_eq_exp_minus_1)
  have e: "p AND NOT (mask 8) = push_bit 8 (drop_bit 8 p)"
    by (rule bit_eqI) (auto simp: bit_simps)
  have d: "unat (drop_bit 8 p) = unat p div 256"
    by (simp add: drop_bit_eq_div unat_div)
  have "unat (push_bit 8 (drop_bit 8 p)) = (unat (drop_bit 8 p) * 256) mod 2 ^ 32"
    by (simp add: push_bit_eq_mult unat_word_ariths)
  moreover have "unat p div 256 * 256 \<le> unat p" by simp
  moreover have "unat p < 2 ^ 32" using unsigned_less [of p] by simp
  ultimately show ?thesis unfolding m e d by simp
qed

lemma and_255: "unat ((p::u32) AND 255) = unat p mod 256"
proof -
  have m: "(255::u32) = mask 8" by (simp add: mask_eq_exp_minus_1)
  show ?thesis unfolding m by (simp add: take_bit_eq_mod unat_mod flip: take_bit_eq_mask)
qed

lemma alignedPtr_unat:
  assumes "(p::u32) \<le> (p + 255) AND NOT 255"
  shows "unat ((p + 255) AND NOT 255) = (unat p + 255) div 256 * 256"
proof (cases "unat p + 255 < 2 ^ 32")
  case True
  then have "unat (p + 255) = unat p + 255" by (simp add: unat_word_ariths)
  then show ?thesis using and_not_255 [of "p + 255"] by simp
next
  case False
  have "unat (p + 255) = (unat p + 255) mod 2 ^ 32" by (simp add: unat_word_ariths)
  moreover have "unat p < 2 ^ 32" using unsigned_less [of p] by simp
  ultimately have "unat (p + 255) = unat p + 255 - 2 ^ 32" using False
    by (simp add: le_mod_geq)
  with \<open>unat p < 2 ^ 32\<close> have "unat (p + 255) < 255" by simp
  then have "unat ((p + 255) AND NOT 255) = 0" using and_not_255 [of "p + 255"] by simp
  with assms have "unat p = 0" by (simp add: word_le_nat_alt)
  with False show ?thesis by simp
qed


lemmas null_defs = createEphemeralBuffer_null_def RendererImpl_null_ctor_def Let_def memcpyFits_def
  commitAllocation_def add_rc_def emptyContainer_def Buffer_null_ctor_def offsetOf_def sizeOf_def

lemma commit_fields:
  "commitAllocation r a b s = (r', h) \<Longrightarrow>
     h = nextHandle (buffers_null r) \<and>
     ringBufPtr_null r' = a + s \<and>
     ringBufSize_null r' = ringBufSize_null r \<and>
     inFrame_null r' = inFrame_null r \<and>
     nextHandle (buffers_null r') = Suc (nextHandle (buffers_null r)) \<and>
     resources (buffers_null r') = (resources (buffers_null r))
        (h \<mapsto> \<lparr> ringBufferAlloc_null = True, beginOffs = b, size_null = s \<rparr>) \<and>
     ephemeralBuffers_null r' = ephemeralBuffers_null r @ [h]"
  by (auto simp: commitAllocation_def add_rc_def Let_def)

lemma create_null_cases:
  assumes "createEphemeralBuffer_null r s = Inr (r', h)"
  shows "s \<noteq> 0 \<and> ringBufSize_null r \<noteq> 0 \<and>
         ringBufPtr_null r \<le> (ringBufPtr_null r + 255) AND NOT 255 \<and>
         ((\<not> ringBufSize_null r \<le> ((ringBufPtr_null r + 255) AND NOT 255) mod ringBufSize_null r + s \<and>
           unat (((ringBufPtr_null r + 255) AND NOT 255) mod ringBufSize_null r) + unat s
             \<le> unat (ringBufSize_null r) \<and>
           commitAllocation r ((ringBufPtr_null r + 255) AND NOT 255)
              (((ringBufPtr_null r + 255) AND NOT 255) mod ringBufSize_null r) s = (r', h))
          \<or>
          (ringBufSize_null r \<le> ((ringBufPtr_null r + 255) AND NOT 255) mod ringBufSize_null r + s \<and>
           ((ringBufPtr_null r div ringBufSize_null r + 1) * ringBufSize_null r) AND 255 = 0 \<and>
           ((((ringBufPtr_null r div ringBufSize_null r + 1) * ringBufSize_null r) + 255) AND NOT 255) mod ringBufSize_null r = 0 \<and>
           s < ringBufSize_null r \<and>
           commitAllocation r ((((ringBufPtr_null r div ringBufSize_null r + 1) * ringBufSize_null r) + 255) AND NOT 255) 0 s = (r', h)))"
  using assms unfolding createEphemeralBuffer_null_def Let_def memcpyFits_def
  by (auto split: if_splits)

lemma roundup_multiple:
  assumes "(x::nat) mod 256 = 0"
  shows "(x + 255) div 256 * 256 = x"
proof -
  from assms have "256 dvd x" by (simp add: mod_eq_0_iff_dvd)
  then obtain k where "x = 256 * k" by (rule dvdE)
  then show ?thesis by simp
qed

lemma aligned_of_multiple:
  assumes "(q::u32) AND 255 = 0"
  shows "(q + 255) AND NOT 255 = q"
proof -
  have m: "unat q mod 256 = 0" using assms and_255 [of q] by simp
  have lt: "unat q < 4294967296" using unsigned_less [of q] by simp
  from m have "256 dvd unat q" by (simp add: mod_eq_0_iff_dvd)
  then obtain k where k: "unat q = 256 * k" by (rule dvdE)
  with lt have "k < 16777216" by simp
  with k have "unat q + 255 < 2 ^ 32" by simp
  then have "unat (q + 255) = unat q + 255" by (simp add: unat_word_ariths)
  then have "unat ((q + 255) AND NOT 255) = (unat q + 255) div 256 * 256"
    using and_not_255 [of "q + 255"] by simp
  with m have "unat ((q + 255) AND NOT 255) = unat q" by (simp add: roundup_multiple)
  then show ?thesis by (rule word_unat_eq_iff [THEN iffD2])
qed

lemma unat_next_boundary:
  "unat (((p::u32) div R + 1) * R) = ((unat p div unat R + 1) * unat R) mod 2 ^ 32"
proof -
  have "unat ((p div R + 1) * R) = (unat (p div R + 1) * unat R) mod 2 ^ 32"
    using unat_word_ariths(2) [of "p div R + 1" R] by simp
  also have "unat (p div R + 1) = (unat (p div R) + 1) mod 2 ^ 32"
    using unat_word_ariths(1) [of "p div R" 1] by simp
  also have "unat (p div R) = unat p div unat R" by (rule unat_div)
  finally show ?thesis by (simp only: mod_mult_left_eq)
qed

lemma u32_lt: "unat (w::u32) < 4294967296"
  using unsigned_less [of w] by simp

lemma create_null_nat:
  assumes ok: "createEphemeralBuffer_null r s = Inr (r', h)"
  shows "0 < unat (ringBufSize_null r) \<and> 0 < unat s \<and>
     (if (unat (ringBufPtr_null r) + 255) div 256 * 256 mod unat (ringBufSize_null r) + unat s
           < unat (ringBufSize_null r)
      then commitAllocation r ((ringBufPtr_null r + 255) AND NOT 255)
              (((ringBufPtr_null r + 255) AND NOT 255) mod ringBufSize_null r) s = (r', h) \<and>
           unat ((ringBufPtr_null r + 255) AND NOT 255) = (unat (ringBufPtr_null r) + 255) div 256 * 256
      else commitAllocation r ((ringBufPtr_null r div ringBufSize_null r + 1) * ringBufSize_null r) 0 s = (r', h) \<and>
           unat ((ringBufPtr_null r div ringBufSize_null r + 1) * ringBufSize_null r)
             = ((unat (ringBufPtr_null r) div unat (ringBufSize_null r) + 1) * unat (ringBufSize_null r)) mod 2 ^ 32 \<and>
           unat ((ringBufPtr_null r div ringBufSize_null r + 1) * ringBufSize_null r) mod 256 = 0 \<and>
           unat ((ringBufPtr_null r div ringBufSize_null r + 1) * ringBufSize_null r) mod unat (ringBufSize_null r) = 0 \<and>
           unat s < unat (ringBufSize_null r))"
proof -
  let ?R = "ringBufSize_null r" and ?p = "ringBufPtr_null r"
  let ?a = "(?p + 255) AND NOT 255"
  let ?q = "(?p div ?R + 1) * ?R"
  note c = create_null_cases [OF ok]
  from c have s0: "s \<noteq> 0" and R0: "?R \<noteq> 0" and le: "?p \<le> ?a" by simp_all
  have Rpos: "0 < unat ?R" using R0 by (simp add: unat_gt_0)
  have spos: "0 < unat s" using s0 by (simp add: unat_gt_0)
  have ua: "unat ?a = (unat ?p + 255) div 256 * 256" using le by (rule alignedPtr_unat)
  have ub: "unat (?a mod ?R) = (unat ?p + 255) div 256 * 256 mod unat ?R"
    by (simp only: unat_mod ua)
  have Rlt: "unat ?R < 4294967296" by (rule u32_lt)
  have wlt: "unat (?a mod ?R + s) < 4294967296" by (rule u32_lt)
  have sm: "unat (?a mod ?R + s) = (unat (?a mod ?R) + unat s) mod 4294967296"
    by (simp add: unat_word_ariths)
  have uq: "unat ?q = ((unat ?p div unat ?R + 1) * unat ?R) mod 2 ^ 32"
    by (rule unat_next_boundary)
  show ?thesis
  proof (cases "?R \<le> ?a mod ?R + s")
    case False
    with c have cm: "commitAllocation r ?a (?a mod ?R) s = (r', h)"
      and fit: "unat (?a mod ?R) + unat s \<le> unat ?R" by blast+
    from fit Rlt have "unat (?a mod ?R) + unat s < 4294967296" by linarith
    with sm have "unat (?a mod ?R + s) = unat (?a mod ?R) + unat s" by simp
    with False have "unat (?a mod ?R) + unat s < unat ?R" by (simp add: word_le_nat_alt)
    then have nt: "(unat ?p + 255) div 256 * 256 mod unat ?R + unat s < unat ?R"
      by (simp only: ub simp_thms)
    show ?thesis by (simp only: nt if_True Rpos spos cm ua simp_thms)
  next
    case True
    with c have z: "?q AND 255 = 0" and b0: "((?q + 255) AND NOT 255) mod ?R = 0"
      and sl: "s < ?R" and cm: "commitAllocation r ((?q + 255) AND NOT 255) 0 s = (r', h)"
      by blast+
    have al: "(?q + 255) AND NOT 255 = ?q" using z by (rule aligned_of_multiple)
    have m256: "unat ?q mod 256 = 0" using z and_255 [of ?q] by simp
    have "unat (?q mod ?R) = 0" using b0 al by simp
    then have mR: "unat ?q mod unat ?R = 0" by (simp only: unat_mod)
    have sR: "unat s < unat ?R" using sl by (simp add: word_less_nat_alt)
    have "\<not> unat (?a mod ?R) + unat s < unat ?R"
    proof
      assume lt: "unat (?a mod ?R) + unat s < unat ?R"
      with Rlt have "unat (?a mod ?R) + unat s < 4294967296" by linarith
      with sm have "unat (?a mod ?R + s) = unat (?a mod ?R) + unat s" by simp
      with True lt show False by (simp add: word_le_nat_alt)
    qed
    then have nt: "\<not> (unat ?p + 255) div 256 * 256 mod unat ?R + unat s < unat ?R"
      by (simp only: ub simp_thms)
    from cm al have cm': "commitAllocation r ?q 0 s = (r', h)" by (simp only:)
    show ?thesis by (simp only: nt if_False Rpos spos cm' uq [symmetric] m256 mR sR simp_thms)
  qed
qed

lemma create_null_nowrap:
  assumes ok: "createEphemeralBuffer_null r s = Inr (r', h)"
      and t: "(unat (ringBufPtr_null r) + 255) div 256 * 256 mod unat (ringBufSize_null r) + unat s
           < unat (ringBufSize_null r)"
  shows "commitAllocation r ((ringBufPtr_null r + 255) AND NOT 255)
              (((ringBufPtr_null r + 255) AND NOT 255) mod ringBufSize_null r) s = (r', h)"
    and "unat ((ringBufPtr_null r + 255) AND NOT 255) = (unat (ringBufPtr_null r) + 255) div 256 * 256"
  using create_null_nat [OF ok, unfolded if_P [OF t]] by blast+

lemma create_null_wrap:
  assumes ok: "createEphemeralBuffer_null r s = Inr (r', h)"
      and t: "\<not> (unat (ringBufPtr_null r) + 255) div 256 * 256 mod unat (ringBufSize_null r) + unat s
           < unat (ringBufSize_null r)"
  shows "commitAllocation r ((ringBufPtr_null r div ringBufSize_null r + 1) * ringBufSize_null r) 0 s = (r', h)"
    and "unat ((ringBufPtr_null r div ringBufSize_null r + 1) * ringBufSize_null r)
             = ((unat (ringBufPtr_null r) div unat (ringBufSize_null r) + 1) * unat (ringBufSize_null r)) mod 2 ^ 32"
    and "unat ((ringBufPtr_null r div ringBufSize_null r + 1) * ringBufSize_null r) mod 256 = 0"
    and "unat ((ringBufPtr_null r div ringBufSize_null r + 1) * ringBufSize_null r) mod unat (ringBufSize_null r) = 0"
    and "unat s < unat (ringBufSize_null r)"
  using create_null_nat [OF ok, unfolded if_not_P [OF t]] by blast+

lemma pairwiseDisjoint_snoc:
  "pairwiseDisjoint (xs @ [x]) \<longleftrightarrow>
     pairwiseDisjoint xs \<and> list_all (\<lambda>y. disjointRanges y x) xs"
  by (induction xs) auto

subsection \<open>What one allocation does\<close>

lemma commit_offset:
  assumes "commitAllocation r a b s = (r', h)"
  shows "offsetOf r' h = unat b" and "sizeOf r' h = unat s"
  using commit_fields [OF assms] by (simp_all add: offsetOf_def sizeOf_def)

lemma create_null_commit:
  assumes "createEphemeralBuffer_null r sz = Inr (r', h)"
  shows "\<exists>a b. commitAllocation r a b sz = (r', h)"
  using create_null_cases [OF assms] by blast

lemma create_null_frame:
  assumes "createEphemeralBuffer_null r sz = Inr (r', h)"
  shows "h = nextHandle (buffers_null r)"
    and "nextHandle (buffers_null r') = Suc (nextHandle (buffers_null r))"
    and "ephemeralBuffers_null r' = ephemeralBuffers_null r @ [h]"
    and "ringBufSize_null r' = ringBufSize_null r"
    and "sizeOf r' h = unat sz"
    and "g \<noteq> h \<Longrightarrow> offsetOf r' g = offsetOf r g"
    and "g \<noteq> h \<Longrightarrow> sizeOf r' g = sizeOf r g"
proof -
  from create_null_commit [OF assms] obtain a b where c: "commitAllocation r a b sz = (r', h)" by blast
  note f = commit_fields [OF c]
  show "h = nextHandle (buffers_null r)" using f by simp
  show "nextHandle (buffers_null r') = Suc (nextHandle (buffers_null r))" using f by simp
  show "ephemeralBuffers_null r' = ephemeralBuffers_null r @ [h]" using f by simp
  show "ringBufSize_null r' = ringBufSize_null r" using f by simp
  show "sizeOf r' h = unat sz" using commit_offset(2) [OF c] .
  show "g \<noteq> h \<Longrightarrow> offsetOf r' g = offsetOf r g" using f by (simp add: offsetOf_def)
  show "g \<noteq> h \<Longrightarrow> sizeOf r' g = sizeOf r g" using f by (simp add: sizeOf_def)
qed

lemmas ev = null_defs rangesGranted_def liveRanges_def liveInWindow_def windowPos_def

text \<open>
  Claim C4.  For every allocation request that returns (no assertion fails and the copy
  stays inside the ring): the cursor is rounded up to the allocator's alignment (256
  bytes); if the aligned range does not stay below the ring's end, the cursor first
  advances to the next multiple of the ring size and the allocation starts at offset 0,
  otherwise it starts at the aligned cursor position in the ring.  In both cases the
  cursor ends (modulo \<open>2 ^ 32\<close>) just past the allocation.  With a ring of 1024 bytes,
  two allocations of 600 bytes in a row get the offsets 0 and 0.
\<close>

theorem createEphemeralBuffer_wraps_at_ring_end:
  assumes ok: "createEphemeralBuffer_null r sz = Inr (r', h)"
  shows "(let R = unat (ringBufSize_null r); p = unat (ringBufPtr_null r);
              a = (p + 255) div 256 * 256
          in if a mod R + unat sz < R
             then offsetOf r' h = a mod R \<and>
                  unat (ringBufPtr_null r') = (a + unat sz) mod 2 ^ 32
             else offsetOf r' h = 0 \<and>
                  unat (ringBufPtr_null r') = ((p div R + 1) * R + unat sz) mod 2 ^ 32)
         \<and> rangesGranted 1024 [600, 600] = Inr [(0, 600), (0, 600)]"
proof -
  let ?R = "unat (ringBufSize_null r)" and ?p = "unat (ringBufPtr_null r)"
  let ?a = "(?p + 255) div 256 * 256"
  note n = create_null_nat [OF ok]
  have ex: "rangesGranted 1024 [600, 600] = Inr [(0, 600), (0, 600)]"
    by (simp add: null_defs rangesGranted_def liveRanges_def)
  show ?thesis
  proof (cases "?a mod ?R + unat sz < ?R")
    case True
    with n have cm: "commitAllocation r ((ringBufPtr_null r + 255) AND NOT 255)
              (((ringBufPtr_null r + 255) AND NOT 255) mod ringBufSize_null r) sz = (r', h)"
      and ua: "unat ((ringBufPtr_null r + 255) AND NOT 255) = ?a"
      by (simp_all only: if_True)
    have "offsetOf r' h = ?a mod ?R" by (simp only: commit_offset [OF cm] unat_mod ua)
    moreover have "unat (ringBufPtr_null r') = (?a + unat sz) mod 2 ^ 32"
      using commit_fields [OF cm] ua by (simp add: unat_word_ariths)
    ultimately show ?thesis using True ex by (simp only: Let_def if_True simp_thms)
  next
    case False
    with n have cm: "commitAllocation r ((ringBufPtr_null r div ringBufSize_null r + 1) * ringBufSize_null r) 0 sz = (r', h)"
      and uq: "unat ((ringBufPtr_null r div ringBufSize_null r + 1) * ringBufSize_null r)
             = ((?p div ?R + 1) * ?R) mod 2 ^ 32"
      by (simp_all only: if_False)
    have "offsetOf r' h = 0" by (simp add: commit_offset [OF cm])
    moreover have "unat (ringBufPtr_null r') = ((?p div ?R + 1) * ?R + unat sz) mod 2 ^ 32"
      using commit_fields [OF cm] uq by (simp add: unat_word_ariths mod_simps)
    ultimately show ?thesis using False ex by (simp only: Let_def if_False simp_thms)
  qed
qed

theorem createEphemeralBuffer_wraps_at_ring_end_witness:
  "createEphemeralBuffer_null ((RendererImpl_null_ctor 1024)\<lparr>ringBufPtr_null := 600\<rparr>) 600
     = Inr (commitAllocation ((RendererImpl_null_ctor 1024)\<lparr>ringBufPtr_null := 600\<rparr>) 1024 0 600)
   \<and> offsetOf (fst (commitAllocation ((RendererImpl_null_ctor 1024)\<lparr>ringBufPtr_null := 600\<rparr>) 1024 0 600))
               (snd (commitAllocation ((RendererImpl_null_ctor 1024)\<lparr>ringBufPtr_null := 600\<rparr>) 1024 0 600)) = 0
   \<and> unat (ringBufPtr_null (fst (commitAllocation ((RendererImpl_null_ctor 1024)\<lparr>ringBufPtr_null := 600\<rparr>) 1024 0 600))) = 1624"
proof -
  let ?r = "(RendererImpl_null_ctor 1024)\<lparr>ringBufPtr_null := 600\<rparr>"
  let ?c = "commitAllocation ?r 1024 0 600"
  have ok: "createEphemeralBuffer_null ?r 600 = Inr (fst ?c, snd ?c)" by (simp add: ev)
  from createEphemeralBuffer_wraps_at_ring_end [OF ok] ok show ?thesis by (simp add: ev)
qed

subsection \<open>Alignment of the offsets\<close>

text \<open>
  Claim C10, as stated, at a ring of 1000 bytes: after requests of 700 and 100 bytes the
  third request, of 10 bytes, is granted the offset 24, which is no multiple of 256.  The
  aligned cursor 1024 is reduced modulo the ring size, and no assertion looks at the
  result.
\<close>

theorem allocation_offset_24_in_ring_of_1000:
  "rangesGranted 1000 [700, 100, 10] = Inr [(0, 700), (768, 100), (24, 10)] \<and> \<not> (256 :: nat) dvd 24"
  by (simp add: ev)

text \<open>
  Claim C10, amended.  When the ring size is a multiple of 256, every allocation that
  returns starts at an offset that is a multiple of 256: the constant 8 is the exponent
  of the alignment, the rounding mask is \<open>(1 << 8) - 1 = 255\<close>.
\<close>

theorem allocation_offset_multiple_of_256:
  assumes ok: "createEphemeralBuffer_null r sz = Inr (r', h)"
      and dv: "256 dvd unat (ringBufSize_null r)"
  shows "256 dvd offsetOf r' h"
proof -
  let ?R = "ringBufSize_null r" and ?p = "ringBufPtr_null r"
  let ?a = "(?p + 255) AND NOT 255"
  note c = create_null_cases [OF ok]
  from c have le: "?p \<le> ?a" by simp
  have "unat ?a = (unat ?p + 255) div 256 * 256" using le by (rule alignedPtr_unat)
  then have "256 dvd unat ?a" by simp
  with dv have "256 dvd unat ?a mod unat ?R" by (simp add: dvd_mod)
  then have d: "256 dvd unat (?a mod ?R)" by (simp only: unat_mod)
  from c consider "commitAllocation r ?a (?a mod ?R) sz = (r', h)"
    | "commitAllocation r ((((?p div ?R + 1) * ?R) + 255) AND NOT 255) 0 sz = (r', h)"
    by blast
  then show ?thesis
  proof cases
    case 1
    then show ?thesis using d by (simp only: commit_offset)
  next
    case 2
    then show ?thesis by (simp add: commit_offset)
  qed
qed

theorem allocation_offset_multiple_of_256_witness:
  "createEphemeralBuffer_null ((RendererImpl_null_ctor 1024)\<lparr>ringBufPtr_null := 600\<rparr>) 10
     = Inr (commitAllocation ((RendererImpl_null_ctor 1024)\<lparr>ringBufPtr_null := 600\<rparr>) 768 768 10)
   \<and> 256 dvd unat (1024 :: u32)
   \<and> 256 dvd offsetOf (fst (commitAllocation ((RendererImpl_null_ctor 1024)\<lparr>ringBufPtr_null := 600\<rparr>) 768 768 10))
               (snd (commitAllocation ((RendererImpl_null_ctor 1024)\<lparr>ringBufPtr_null := 600\<rparr>) 768 768 10))
   \<and> offsetOf (fst (commitAllocation ((RendererImpl_null_ctor 1024)\<lparr>ringBufPtr_null := 600\<rparr>) 768 768 10))
               (snd (commitAllocation ((RendererImpl_null_ctor 1024)\<lparr>ringBufPtr_null := 600\<rparr>) 768 768 10)) = 768"
proof -
  let ?r = "(RendererImpl_null_ctor 1024)\<lparr>ringBufPtr_null := 600\<rparr>"
  let ?c = "commitAllocation ?r 768 768 10"
  have ok: "createEphemeralBuffer_null ?r 10 = Inr (fst ?c, snd ?c)" by (simp add: ev)
  have dv: "256 dvd unat (ringBufSize_null ?r)" by (simp add: ev)
  from allocation_offset_multiple_of_256 [OF ok dv] ok dv show ?thesis by (simp add: ev)
qed

subsection \<open>Overlap of live allocations\<close>

text \<open>
  Claim C5, as stated, in a ring of 1024 bytes: two requests of 600 bytes within one
  frame are both granted the range \<open>[0, 600)\<close>, and both buffers are live (nothing
  has been presented).  The allocator never looks at the ranges it has handed out.
\<close>

theorem live_allocations_overlap_after_wrap:
  "rangesGranted 1024 [600, 600] = Inr [(0, 600), (0, 600)] \<and> \<not> disjointRanges (0, 600) (0, 600)"
  by (simp add: ev)

lemma windowPos_abs:
  assumes "lo \<le> a" and "a < lo + R"
  shows "windowPos lo R (a mod R) = a - lo"
proof -
  define d where "d = a - lo"
  define k where "k = lo div R"
  define m where "m = lo mod R"
  have R: "0 < R" using assms by (cases R) simp_all
  have a: "a = lo + d" and d: "d < R" using assms by (simp_all add: d_def)
  have lo: "lo = k * R + m" by (simp add: k_def m_def)
  have m: "m < R" using R by (simp add: m_def)
  have "(a mod R + (R - m)) mod R = (a + (R - m)) mod R" by (simp add: mod_add_left_eq)
  also have "a + (R - m) = d + (k + 1) * R" using a lo m by simp
  also have "(d + (k + 1) * R) mod R = d mod R" by (rule mod_mult_self1)
  also have "d mod R = d" using d by simp
  finally show ?thesis by (simp add: windowPos_def d_def m_def)
qed

lemma window_offset:
  assumes "off < R"
  shows "(lo mod R + windowPos lo R off) mod R = off"
proof -
  define m where "m = lo mod R"
  have m: "m < R" using assms by (simp add: m_def)
  have "(m + (off + (R - m)) mod R) mod R = (m + (off + (R - m))) mod R"
    by (simp add: mod_add_right_eq)
  also have "m + (off + (R - m)) = off + R" using m by simp
  also have "(off + R) mod R = off" using assms by simp
  finally show ?thesis by (simp add: windowPos_def m_def)
qed

lemma ring_offset_cases:
  fixes c w R :: nat
  assumes "c < R" and "w < R"
  shows "(c + w) mod R = (if c + w < R then c + w else c + w - R)"
proof (cases "c + w < R")
  case True
  then show ?thesis by simp
next
  case False
  then have "(c + w) mod R = (c + w - R) mod R" by (simp add: le_mod_geq)
  moreover have "c + w - R < R" using assms by simp
  ultimately show ?thesis using False by simp
qed

lemma window_disjoint:
  assumes o1: "o1 < R" and o2: "o2 < R"
      and e1: "o1 + s1 \<le> R" and e2: "o2 + s2 \<le> R"
      and ord: "windowPos lo R o1 + s1 \<le> windowPos lo R o2"
      and win: "windowPos lo R o2 + s2 \<le> R"
  shows "disjointRanges (o1, s1) (o2, s2)"
proof -
  define c where "c = lo mod R"
  define w1 where "w1 = windowPos lo R o1"
  define w2 where "w2 = windowPos lo R o2"
  have R: "0 < R" using o1 by simp
  have c: "c < R" using R by (simp add: c_def)
  have w1: "w1 < R" and w2: "w2 < R" using R by (simp_all add: w1_def w2_def windowPos_def)
  have "(c + w1) mod R = o1" unfolding c_def w1_def using o1 by (rule window_offset)
  then have p1: "o1 = (if c + w1 < R then c + w1 else c + w1 - R)"
    using ring_offset_cases [OF c w1] by simp
  have "(c + w2) mod R = o2" unfolding c_def w2_def using o2 by (rule window_offset)
  then have p2: "o2 = (if c + w2 < R then c + w2 else c + w2 - R)"
    using ring_offset_cases [OF c w2] by simp
  from ord have ord': "w1 + s1 \<le> w2" by (simp add: w1_def w2_def)
  from win have win': "w2 + s2 \<le> R" by (simp add: w2_def)
  have "o1 + s1 \<le> o2 \<or> o2 + s2 \<le> o1"
  proof (cases "c + w1 < R")
    case True
    note t1 = this
    show ?thesis
    proof (cases "c + w2 < R")
      case True
      with t1 p1 p2 ord' show ?thesis by simp
    next
      case False
      with t1 p1 p2 win' c show ?thesis by (simp only: if_True if_False) linarith
    qed
  next
    case False
    with ord' have "\<not> c + w2 < R" by simp
    with False p1 p2 ord' show ?thesis by (simp only: if_True if_False) linarith
  qed
  then show ?thesis by simp
qed

lemma window_range:
  assumes ok: "createEphemeralBuffer_null r sz = Inr (r', h)"
      and fwd: "unat (ringBufPtr_null r) + unat sz \<le> unat (ringBufPtr_null r')"
  shows "\<exists>a. unat (ringBufPtr_null r) \<le> a \<and>
             a + unat sz = unat (ringBufPtr_null r') \<and>
             offsetOf r' h = a mod unat (ringBufSize_null r) \<and>
             offsetOf r' h + unat sz \<le> unat (ringBufSize_null r) \<and>
             0 < unat sz \<and> 0 < unat (ringBufSize_null r)"
proof -
  let ?R = "unat (ringBufSize_null r)" and ?p = "unat (ringBufPtr_null r)"
  let ?p' = "unat (ringBufPtr_null r')"
  let ?a = "(?p + 255) div 256 * 256"
  let ?s = "unat sz"
  note n = create_null_nat [OF ok]
  from n have Rpos: "0 < ?R" and spos: "0 < ?s" by simp_all
  have Rlt: "?R < 4294967296" by (rule u32_lt)
  have slt: "?s < 4294967296" by (rule u32_lt)
  have plt: "?p < 4294967296" by (rule u32_lt)
  have "?p + 255 = ?a + (?p + 255) mod 256" by simp
  moreover have "(?p + 255) mod 256 < 256" by simp
  ultimately have pa: "?p \<le> ?a" and ap: "?a \<le> ?p + 255" by linarith+
  show ?thesis
  proof (cases "?a mod ?R + ?s < ?R")
    case True
    note cm = create_null_nowrap(1) [OF ok True]
    note ua = create_null_nowrap(2) [OF ok True]
    have off: "offsetOf r' h = ?a mod ?R" by (simp only: commit_offset [OF cm] unat_mod ua)
    have p': "?p' = (?a + ?s) mod 4294967296"
      using commit_fields [OF cm] ua by (simp add: unat_word_ariths)
    have alt: "?a < 4294967296" using ua u32_lt [of "(ringBufPtr_null r + 255) AND NOT 255"] by simp
    have noof: "?a + ?s < 4294967296"
    proof (rule ccontr)
      assume "\<not> ?a + ?s < 4294967296"
      then have ge: "4294967296 \<le> ?a + ?s" by simp
      with alt slt have "(?a + ?s) mod 4294967296 = ?a + ?s - 4294967296"
        by (simp add: le_mod_geq)
      with p' fwd alt show False using ge by linarith
    qed
    then have p'': "?a + ?s = ?p'" using p' by simp
    from pa p'' off True Rpos spos show ?thesis by (intro exI [of _ ?a]) simp
  next
    case False
    let ?qw = "(ringBufPtr_null r div ringBufSize_null r + 1) * ringBufSize_null r"
    let ?k = "?p div ?R"
    let ?Q = "(?k + 1) * ?R"
    note cm = create_null_wrap(1) [OF ok False]
    note uq = create_null_wrap(2) [OF ok False]
    note qR = create_null_wrap(4) [OF ok False]
    note sR = create_null_wrap(5) [OF ok False]
    have qlt: "unat ?qw < 4294967296" by (rule u32_lt)
    have p': "?p' = (unat ?qw + ?s) mod 4294967296"
      using commit_fields [OF cm] by (simp add: unat_word_ariths)
    have off: "offsetOf r' h = 0" by (simp add: commit_offset [OF cm])
    have "?k * ?R \<le> ?p" by simp
    then have Qle: "?Q \<le> ?p + ?R" by simp
    have "?p < ?k * ?R + ?R" using Rpos by (metis add.commute dividend_less_div_times)
    then have pQ: "?p < ?Q" by simp
    have p'le: "?p' \<le> unat ?qw + ?s"
    proof (cases "unat ?qw + ?s < 4294967296")
      case True
      then show ?thesis using p' by simp
    next
      case False
      with qlt slt have "(unat ?qw + ?s) mod 4294967296 = unat ?qw + ?s - 4294967296"
        by (simp add: le_mod_geq)
      with p' show ?thesis by simp
    qed
    with fwd have pq: "?p \<le> unat ?qw" by linarith
    have Qlt: "?Q < 4294967296"
    proof (rule ccontr)
      assume "\<not> ?Q < 4294967296"
      then have ge: "4294967296 \<le> ?Q" by simp
      from Qle plt Rlt have "?Q - 4294967296 < 4294967296" by linarith
      with ge have "?Q mod 4294967296 = ?Q - 4294967296" by (simp add: le_mod_geq)
      with uq have "unat ?qw = ?Q - 4294967296" by simp
      with Qle Rlt pq ge show False by linarith
    qed
    then have q: "unat ?qw = ?Q" using uq by simp
    have noof: "unat ?qw + ?s < 4294967296"
    proof (rule ccontr)
      assume "\<not> unat ?qw + ?s < 4294967296"
      then have ge: "4294967296 \<le> unat ?qw + ?s" by simp
      with qlt slt have "(unat ?qw + ?s) mod 4294967296 = unat ?qw + ?s - 4294967296"
        by (simp add: le_mod_geq)
      with p' fwd qlt ge show False by linarith
    qed
    then have p'': "unat ?qw + ?s = ?p'" using p' by simp
    from pq p'' off qR sR Rpos spos show ?thesis by (intro exI [of _ "unat ?qw"]) simp
  qed
qed

text \<open>
  Claim C5, amended.  The allocator tracks no live ranges, yet a granted request
  overlaps no live ephemeral buffer, also across the wrap at the ring's end, as long as
  everything live fits into one ring size on the cursor's line: \<open>lo\<close> is a position at
  or before the start of the oldest live buffer, the new buffer starts at or after
  \<open>lo\<close>, the cursor ends at most one ring size past \<open>lo\<close>, and the 32-bit cursor does not
  wrap around (it moves forward by at least the size).  Then the new range ends inside
  the ring, is disjoint from every live range, and the live buffers are again pairwise
  disjoint within one ring size from \<open>lo\<close>.  A renderer with no live ephemeral buffer
  is in this state for every \<open>lo\<close> not more than a ring size behind the cursor.
\<close>

theorem allocation_within_window_disjoint:
  assumes ok: "createEphemeralBuffer_null r sz = Inr (r', h)"
      and fwd: "unat (ringBufPtr_null r) + unat sz \<le> unat (ringBufPtr_null r')"
      and beg: "lo + unat sz \<le> unat (ringBufPtr_null r')"
      and win: "unat (ringBufPtr_null r') \<le> lo + unat (ringBufSize_null r)"
      and inv: "liveInWindow lo r"
  shows "liveRanges r' = liveRanges r @ [(offsetOf r' h, unat sz)] \<and>
         list_all (\<lambda>x. disjointRanges x (offsetOf r' h, unat sz)) (liveRanges r) \<and>
         offsetOf r' h + unat sz \<le> unat (ringBufSize_null r) \<and>
         liveInWindow lo r'"
proof -
  let ?R = "unat (ringBufSize_null r)" and ?p = "unat (ringBufPtr_null r)"
  let ?p' = "unat (ringBufPtr_null r')"
  let ?hs = "ephemeralBuffers_null r"
  let ?o = "offsetOf r' h" and ?s = "unat sz"
  note fr = create_null_frame [OF ok]
  from window_range [OF ok fwd] obtain a where
    pa: "?p \<le> a" and ap: "a + ?s = ?p'" and off: "?o = a mod ?R"
    and fit: "?o + ?s \<le> ?R" and spos: "0 < ?s" and Rpos: "0 < ?R"
    by blast
  from beg ap have loa: "lo \<le> a" by simp
  from win ap spos have alo: "a < lo + ?R" by simp
  have wn: "windowPos lo ?R ?o = a - lo" unfolding off using loa alo by (rule windowPos_abs)
  have oR: "?o < ?R" using off Rpos by simp
  from inv have old: "\<And>g. g \<in> set ?hs \<Longrightarrow>
      g < nextHandle (buffers_null r) \<and> 0 < sizeOf r g \<and> offsetOf r g + sizeOf r g \<le> ?R \<and>
      lo + windowPos lo ?R (offsetOf r g) + sizeOf r g \<le> ?p"
    and pd: "pairwiseDisjoint (liveRanges r)"
    by (simp_all add: liveInWindow_def list_all_iff)
  have ne: "\<And>g. g \<in> set ?hs \<Longrightarrow> g \<noteq> h" using old fr(1) by fastforce
  have same: "map (\<lambda>g. (offsetOf r' g, sizeOf r' g)) ?hs = map (\<lambda>g. (offsetOf r g, sizeOf r g)) ?hs"
    using ne fr(6,7) by simp
  have lr: "liveRanges r' = liveRanges r @ [(?o, ?s)]"
    by (simp add: liveRanges_def fr(3) fr(5) same)
  have dj1: "\<And>g. g \<in> set ?hs \<Longrightarrow> disjointRanges (offsetOf r g, sizeOf r g) (?o, ?s)"
  proof -
    fix g assume g: "g \<in> set ?hs"
    from old [OF g] have sg: "0 < sizeOf r g" and eg: "offsetOf r g + sizeOf r g \<le> ?R"
      and wg: "lo + windowPos lo ?R (offsetOf r g) + sizeOf r g \<le> ?p" by simp_all
    from sg eg have og: "offsetOf r g < ?R" by simp
    from wg pa loa wn have ord: "windowPos lo ?R (offsetOf r g) + sizeOf r g \<le> windowPos lo ?R ?o"
      by simp
    from wn loa ap win have w: "windowPos lo ?R ?o + ?s \<le> ?R" by simp
    from window_disjoint [OF og oR eg fit ord w]
    show "disjointRanges (offsetOf r g, sizeOf r g) (?o, ?s)" .
  qed
  then have dj: "list_all (\<lambda>x. disjointRanges x (?o, ?s)) (liveRanges r)"
    by (simp add: liveRanges_def list_all_iff)
  have "list_all (\<lambda>g. g < nextHandle (buffers_null r') \<and> 0 < sizeOf r' g \<and>
                    offsetOf r' g + sizeOf r' g \<le> unat (ringBufSize_null r') \<and>
                    lo + windowPos lo (unat (ringBufSize_null r')) (offsetOf r' g) + sizeOf r' g
                      \<le> ?p')
          (ephemeralBuffers_null r')"
  proof -
    have "\<And>g. g \<in> set ?hs \<Longrightarrow> g < nextHandle (buffers_null r') \<and> 0 < sizeOf r' g \<and>
                    offsetOf r' g + sizeOf r' g \<le> ?R \<and>
                    lo + windowPos lo ?R (offsetOf r' g) + sizeOf r' g \<le> ?p'"
    proof -
      fix g assume g: "g \<in> set ?hs"
      from old [OF g] ne [OF g] fr(6,7) [of g] pa ap fr(2)
      show "g < nextHandle (buffers_null r') \<and> 0 < sizeOf r' g \<and>
                    offsetOf r' g + sizeOf r' g \<le> ?R \<and>
                    lo + windowPos lo ?R (offsetOf r' g) + sizeOf r' g \<le> ?p'"
        by simp
    qed
    moreover have "h < nextHandle (buffers_null r') \<and> 0 < sizeOf r' h \<and>
                    ?o + sizeOf r' h \<le> ?R \<and>
                    lo + windowPos lo ?R ?o + sizeOf r' h \<le> ?p'"
      using fr(1,2,5) fit spos wn loa ap by simp
    ultimately show ?thesis by (simp add: fr(3) fr(4) list_all_iff)
  qed
  moreover have "pairwiseDisjoint (liveRanges r')"
    using pd dj by (simp only: lr pairwiseDisjoint_snoc simp_thms)
  moreover have "?p' \<le> lo + unat (ringBufSize_null r')" using win by (simp only: fr(4))
  ultimately have "liveInWindow lo r'" by (simp only: liveInWindow_def simp_thms)
  with lr dj fit show ?thesis by (simp only: simp_thms)
qed

theorem allocation_within_window_disjoint_witness:
  "createEphemeralBuffer_null
       (fst (commitAllocation ((RendererImpl_null_ctor 1024)\<lparr>ringBufPtr_null := 512\<rparr>) 512 512 100)) 500
     = Inr (commitAllocation
              (fst (commitAllocation ((RendererImpl_null_ctor 1024)\<lparr>ringBufPtr_null := 512\<rparr>) 512 512 100))
              1024 0 500)
   \<and> createEphemeralBuffers_null ((RendererImpl_null_ctor 1024)\<lparr>ringBufPtr_null := 512\<rparr>) [100, 500]
     = Inr (fst (commitAllocation
              (fst (commitAllocation ((RendererImpl_null_ctor 1024)\<lparr>ringBufPtr_null := 512\<rparr>) 512 512 100))
              1024 0 500))
   \<and> liveInWindow 512 (fst (commitAllocation ((RendererImpl_null_ctor 1024)\<lparr>ringBufPtr_null := 512\<rparr>) 512 512 100))
   \<and> liveRanges (fst (commitAllocation
              (fst (commitAllocation ((RendererImpl_null_ctor 1024)\<lparr>ringBufPtr_null := 512\<rparr>) 512 512 100))
              1024 0 500))
       = [(512, 100), (0, 500)]
   \<and> unat (ringBufPtr_null (fst (commitAllocation
              (fst (commitAllocation ((RendererImpl_null_ctor 1024)\<lparr>ringBufPtr_null := 512\<rparr>) 512 512 100))
              1024 0 500))) = 1524
   \<and> liveInWindow 512 (fst (commitAllocation
              (fst (commitAllocation ((RendererImpl_null_ctor 1024)\<lparr>ringBufPtr_null := 512\<rparr>) 512 512 100))
              1024 0 500))"
proof -
  let ?z = "(RendererImpl_null_ctor 1024)\<lparr>ringBufPtr_null := 512\<rparr>"
  let ?r = "fst (commitAllocation ?z 512 512 100)"
  let ?c = "commitAllocation ?r 1024 0 500"
  have ok: "createEphemeralBuffer_null ?r 500 = Inr (fst ?c, snd ?c)" by (simp add: ev)
  have run: "createEphemeralBuffers_null ?z [100, 500] = Inr (fst ?c)" by (simp add: ev)
  have fwd: "unat (ringBufPtr_null ?r) + unat (500 :: u32) \<le> unat (ringBufPtr_null (fst ?c))"
    by (simp add: ev)
  have beg: "512 + unat (500 :: u32) \<le> unat (ringBufPtr_null (fst ?c))" by (simp add: ev)
  have win: "unat (ringBufPtr_null (fst ?c)) \<le> 512 + unat (ringBufSize_null ?r)" by (simp add: ev)
  have inv: "liveInWindow 512 ?r" by (simp add: ev)
  have p: "unat (ringBufPtr_null (fst ?c)) = 1524" by (simp add: ev)
  from allocation_within_window_disjoint [OF ok fwd beg win inv] ok run inv p
  show ?thesis by (simp add: ev)
qed

subsection \<open>Requests that are granted\<close>

text \<open>
  No assertion of \<open>createEphemeralBuffer\<close> fails and the copy stays inside the ring, so a
  buffer is handed out, whenever the
  request is not empty and smaller than the ring, the ring size is a multiple of 256 and
  the cursor is at least one ring size (and one alignment step) away from \<open>2 ^ 32\<close>.
\<close>

lemma createEphemeralBuffer_null_returns:
  assumes s0: "s \<noteq> 0"
      and al: "256 dvd unat (ringBufSize_null r)"
      and lt: "s < ringBufSize_null r"
      and nov: "unat (ringBufPtr_null r) + unat (ringBufSize_null r) + 255 < 2 ^ 32"
  shows "\<exists>r' h. createEphemeralBuffer_null r s = Inr (r', h)"
proof -
  let ?p = "ringBufPtr_null r" and ?R = "ringBufSize_null r"
  let ?q = "(?p div ?R + 1) * ?R"
  have R0: "?R \<noteq> 0" using lt by (auto simp: word_less_nat_alt)
  then have Rpos: "0 < unat ?R" by (simp add: unat_gt_0)
  have "unat (?p + 255) = unat ?p + 255" using nov by (simp add: unat_word_ariths)
  then have ua: "unat ((?p + 255) AND NOT 255) = (unat ?p + 255) div 256 * 256"
    using and_not_255 [of "?p + 255"] by simp
  have "unat ?p \<le> (unat ?p + 255) div 256 * 256"
  proof -
    have "unat ?p + 255 = (unat ?p + 255) div 256 * 256 + (unat ?p + 255) mod 256" by simp
    moreover have "(unat ?p + 255) mod 256 < 256" by simp
    ultimately show ?thesis by linarith
  qed
  with ua have a1: "?p \<le> (?p + 255) AND NOT 255" by (simp only: word_le_nat_alt)
  have "unat ?p div unat ?R * unat ?R \<le> unat ?p" by simp
  then have "(unat ?p div unat ?R + 1) * unat ?R \<le> unat ?p + unat ?R" by simp
  with nov have "(unat ?p div unat ?R + 1) * unat ?R < 2 ^ 32" by linarith
  then have uq: "unat ?q = (unat ?p div unat ?R + 1) * unat ?R"
    by (simp only: unat_next_boundary mod_less)
  from al have "256 dvd unat ?q" unfolding uq by (rule dvd_mult)
  then have "unat (?q AND 255) = 0" by (simp only: and_255 mod_eq_0_iff_dvd)
  then have q255: "?q AND 255 = 0" by (simp only: unat_eq_0)
  have qa: "(?q + 255) AND NOT 255 = ?q" by (rule aligned_of_multiple [OF q255])
  have "unat (?q mod ?R) = 0" unfolding unat_mod uq by simp
  then have qm: "?q mod ?R = 0" by (simp only: unat_eq_0)
  have sR: "unat s < unat ?R" using lt by (simp add: word_less_nat_alt)
  have f0: "memcpyFits r 0 s" using sR by (simp add: memcpyFits_def)
  have "unat (((?p + 255) AND NOT 255) mod ?R) \<le> unat ((?p + 255) AND NOT 255)"
    by (simp only: unat_mod mod_less_eq_dividend)
  moreover have "(unat ?p + 255) div 256 * 256 \<le> unat ?p + 255" by simp
  ultimately have "unat (((?p + 255) AND NOT 255) mod ?R) + unat s < 2 ^ 32"
    using ua sR nov by linarith
  then have sm: "unat (((?p + 255) AND NOT 255) mod ?R + s)
                   = unat (((?p + 255) AND NOT 255) mod ?R) + unat s"
    by (simp add: unat_word_ariths)
  show ?thesis
  proof (cases "?R \<le> ((?p + 255) AND NOT 255) mod ?R + s")
    case True
    with s0 R0 a1 q255 qa qm lt f0 show ?thesis
      by (simp add: createEphemeralBuffer_null_def Let_def split_pairs)
  next
    case False
    then have "memcpyFits r (((?p + 255) AND NOT 255) mod ?R) s"
      unfolding memcpyFits_def word_le_nat_alt sm by simp
    with False s0 R0 a1 show ?thesis
      by (simp add: createEphemeralBuffer_null_def Let_def split_pairs)
  qed
qed

section \<open>Properties of the OpenGL renderer\<close>

lemmas gl_demo_defs = demoRenderer_def demoOutstanding_def demoDrawing_def emptyFrame_def
  RendererImpl_ctor_def recreateRingBuffer_def retireRingBuffer_def add_rc_def emptyContainer_def
  Buffer_ctor_def get_rc_def remove_rc_def Let_def

subsection \<open>Frame retirement\<close>

text \<open>
  Claim C6, as stated, on an outstanding frame: when \<open>glClientWaitSync\<close> reports
  \<open>GL_WAIT_FAILED\<close> the function neither returns true nor returns false, it throws.
\<close>

theorem waitForFrame_wait_failed_throws:
  "outstanding (frames demoOutstanding ! 0) \<and>
   waitForFrame demoOutstanding 0 GL_WAIT_FAILED = Inl RuntimeError"
  by (simp add: gl_demo_defs waitForFrame_def)

lemma reclaimEphemeral_retirable:
  "retirable c hs \<Longrightarrow>
     reclaimEphemeral hs (c, gl) =
       Inr (c\<lparr> resources := resources c |` (- set hs) \<rparr>, gl @ ownedDeletes c hs)"
proof (induction hs arbitrary: c gl)
  case Nil
  then show ?case by (simp add: ownedDeletes_def)
next
  case (Cons h hs)
  from Cons.prems obtain b where b: "resources c h = Some b" "size_gl b > 0"
      "type_gl b \<noteq> BufferType_Invalid"
    and d: "h \<notin> set hs" "distinct hs"
    and rest: "list_all (\<lambda>h. case resources c h of None \<Rightarrow> False
                    | Some b \<Rightarrow> size_gl b > 0 \<and> type_gl b \<noteq> BufferType_Invalid) hs"
    by (auto simp: retirable_def split: option.splits)
  have same: "\<And>g. g \<in> set hs \<Longrightarrow> resources (remove_rc h c) g = resources c g"
    using d by (auto simp: remove_rc_def)
  have r': "retirable (remove_rc h c) hs"
    using d rest same by (auto simp: retirable_def list_all_iff)
  have od: "ownedDeletes (remove_rc h c) hs = ownedDeletes c hs"
    using same by (simp add: ownedDeletes_def cong: map_cong)
  have rs: "resources (remove_rc h c) |` (- set hs) = resources c |` (- set (h # hs))"
    by (auto simp: remove_rc_def restrict_map_def fun_eq_iff)
  let ?gl' = "if ringBufferAlloc b then gl else gl @ [glDeleteBuffers (buffer b)]"
  have step: "reclaimEphemeral (h # hs) (c, gl) = reclaimEphemeral hs (remove_rc h c, ?gl')"
    using b by (simp add: get_rc_def Let_def)
  have nh: "nextHandle (remove_rc h c) = nextHandle c" by (simp add: remove_rc_def)
  have c': "(remove_rc h c)\<lparr> resources := resources (remove_rc h c) |` (- set hs) \<rparr>
              = c\<lparr> resources := resources c |` (- set (h # hs)) \<rparr>"
    unfolding rs by (simp add: remove_rc_def)
  have gl': "?gl' @ ownedDeletes c hs = gl @ ownedDeletes c (h # hs)"
    using b by (simp add: ownedDeletes_def)
  show ?case
    unfolding step Cons.IH [OF r'] od c' gl' ..
qed

text \<open>
  Claim C6, amended.  \<open>waitForFrame(idx)\<close> on an outstanding frame whose ephemeral
  buffers are live has three outcomes, decided by the fence wait.  Signaled: it returns
  true, the fence is deleted, every ephemeral buffer of the frame is removed from the
  container, with a \<open>glDeleteBuffers\<close> call for each owned buffer and none for a
  ring-allocated one, the list is emptied and the frame is no longer outstanding.
  Timeout: it returns false and leaves the frames (fence, outstanding flag, buffer list)
  and the buffers as they were.  Wait failure: it throws a runtime error.
\<close>

theorem waitForFrame_three_outcomes:
  assumes idx: "frameIdx < length (frames r)"
      and out: "outstanding (frames r ! frameIdx)"
      and fen: "fence (frames r ! frameIdx) = Some f"
      and wf: "retirable (buffers r) (ephemeralBuffers (frames r ! frameIdx))"
  shows "(result = GL_ALREADY_SIGNALED \<or> result = GL_CONDITION_SATISFIED \<longrightarrow>
            (\<exists>r'. waitForFrame r frameIdx result = Inr (r', True) \<and>
                  fence (frames r' ! frameIdx) = None \<and>
                  \<not> outstanding (frames r' ! frameIdx) \<and>
                  ephemeralBuffers (frames r' ! frameIdx) = [] \<and>
                  list_all (\<lambda>h. resources (buffers r') h = None)
                    (ephemeralBuffers (frames r ! frameIdx)) \<and>
                  glCalls r' = glCalls r @ [glClientWaitSync f, glDeleteSync f]
                     @ ownedDeletes (buffers r) (ephemeralBuffers (frames r ! frameIdx)))) \<and>
         (result = GL_TIMEOUT_EXPIRED \<longrightarrow>
            (\<exists>r'. waitForFrame r frameIdx result = Inr (r', False) \<and>
                  frames r' = frames r \<and> buffers r' = buffers r \<and>
                  glCalls r' = glCalls r @ [glClientWaitSync f])) \<and>
         (result = GL_WAIT_FAILED \<longrightarrow> waitForFrame r frameIdx result = Inl RuntimeError)"
proof (cases result)
  case GL_ALREADY_SIGNALED
  then show ?thesis
    using idx out fen reclaimEphemeral_retirable [OF wf]
    by (simp add: waitForFrame_def Let_def list_all_iff)
next
  case GL_CONDITION_SATISFIED
  then show ?thesis
    using idx out fen reclaimEphemeral_retirable [OF wf]
    by (simp add: waitForFrame_def Let_def list_all_iff)
next
  case GL_TIMEOUT_EXPIRED
  then show ?thesis using idx out fen by (simp add: waitForFrame_def Let_def)
next
  case GL_WAIT_FAILED
  then show ?thesis using idx out fen by (simp add: waitForFrame_def Let_def)
qed

theorem waitForFrame_three_outcomes_witness:
  "0 < length (frames demoOutstanding) \<and>
   outstanding (frames demoOutstanding ! 0) \<and>
   fence (frames demoOutstanding ! 0) = Some 9 \<and>
   ephemeralBuffers (frames demoOutstanding ! 0) = [1, 2] \<and>
   retirable (buffers demoOutstanding) (ephemeralBuffers (frames demoOutstanding ! 0)) \<and>
   (\<exists>r'. waitForFrame demoOutstanding 0 GL_ALREADY_SIGNALED = Inr (r', True) \<and>
         ephemeralBuffers (frames r' ! 0) = [] \<and>
         glCalls r' = glCalls demoOutstanding
                        @ [glClientWaitSync 9, glDeleteSync 9, glDeleteBuffers 1])"
proof -
  have idx: "0 < length (frames demoOutstanding)" by (simp add: gl_demo_defs)
  have out: "outstanding (frames demoOutstanding ! 0)" by (simp add: gl_demo_defs)
  have fen: "fence (frames demoOutstanding ! 0) = Some 9" by (simp add: gl_demo_defs)
  have hs: "ephemeralBuffers (frames demoOutstanding ! 0) = [1, 2]" by (simp add: gl_demo_defs)
  have wf: "retirable (buffers demoOutstanding) (ephemeralBuffers (frames demoOutstanding ! 0))"
    by (simp add: gl_demo_defs retirable_def)
  have od: "ownedDeletes (buffers demoOutstanding) (ephemeralBuffers (frames demoOutstanding ! 0))
              = [glDeleteBuffers 1]"
    by (simp add: gl_demo_defs ownedDeletes_def)
  from waitForFrame_three_outcomes [OF idx out fen wf, of GL_ALREADY_SIGNALED] idx out fen hs wf od
  show ?thesis by auto
qed

subsection \<open>Resizing the ring\<close>

lemma waitForFrame_signaled:
  assumes idx: "frameIdx < length (frames r)"
      and out: "outstanding (frames r ! frameIdx)"
      and fen: "fence (frames r ! frameIdx) = Some f"
      and wf: "retirable (buffers r) (ephemeralBuffers (frames r ! frameIdx))"
      and res: "result = GL_ALREADY_SIGNALED \<or> result = GL_CONDITION_SATISFIED"
  shows "\<exists>r'. waitForFrame r frameIdx result = Inr (r', True) \<and>
              buffers r' = (buffers r)\<lparr> resources := resources (buffers r)
                               |` (- set (ephemeralBuffers (frames r ! frameIdx))) \<rparr> \<and>
              glCalls r' = glCalls r @ [glClientWaitSync f, glDeleteSync f]
                 @ ownedDeletes (buffers r) (ephemeralBuffers (frames r ! frameIdx))"
  using idx out fen res reclaimEphemeral_retirable [OF wf]
  by (auto simp: waitForFrame_def Let_def)

lemma waitForFrame_timeout:
  assumes idx: "frameIdx < length (frames r)"
      and out: "outstanding (frames r ! frameIdx)"
      and fen: "fence (frames r ! frameIdx) = Some f"
  shows "waitForFrame r frameIdx GL_TIMEOUT_EXPIRED
           = Inr (r\<lparr> glCalls := glCalls r @ [glClientWaitSync f] \<rparr>, False)"
  using idx out fen by (simp add: waitForFrame_def Let_def)

lemma ownedDeletes_mem:
  assumes "h \<in> set hs" and "resources c h = Some b" and "\<not> ringBufferAlloc b"
  shows "glDeleteBuffers (buffer b) \<in> set (ownedDeletes c hs)"
proof -
  from assms have "b \<in> set (filter (\<lambda>b. \<not> ringBufferAlloc b) (map (\<lambda>h. the (resources c h)) hs))"
    by force
  then show ?thesis unfolding ownedDeletes_def set_map by (rule imageI)
qed

lemma retireRingBuffer_Inr:
  assumes sz: "ringBufSize r \<noteq> 0" and cur: "currentFrameIdx r < length (frames r)"
  shows "retireRingBuffer r =
     Inr (r\<lparr> glCalls := (if persistentMapInUse r then glCalls r @ [glUnmapNamedBuffer (ringBuffer r)]
                           else glCalls r),
             persistentMapping := (if persistentMapInUse r then None else persistentMapping r),
             buffers := \<lparr> resources = (resources (buffers r))(nextHandle (buffers r) \<mapsto>
                            \<lparr> buffer = ringBuffer r, ringBufferAlloc = False, offset = 0,
                              size_gl = ringBufSize r, type_gl = Everything \<rparr>),
                          nextHandle = Suc (nextHandle (buffers r)) \<rparr>,
             frames := (frames r)[currentFrameIdx r :=
                         (frames r ! currentFrameIdx r)\<lparr> ephemeralBuffers :=
                            ephemeralBuffers (frames r ! currentFrameIdx r) @ [nextHandle (buffers r)] \<rparr>],
             ringBuffer := 0, ringBufSize := 0, ringBufPtr := 0 \<rparr>)"
  using assms by (simp add: retireRingBuffer_def Let_def add_rc_def)

lemma recreateRingBuffer_calls:
  assumes ring: "ringBuffer r \<noteq> 0" and sz: "ringBufSize r \<noteq> 0"
      and ns: "0 < newSize" and nn: "newName \<noteq> 0"
      and cur: "currentFrameIdx r < length (frames r)"
      and pm: "persistentMapInUse r \<or> persistentMapping r = None"
  shows "\<exists>r'. recreateRingBuffer r newSize newName = Inr r' \<and>
     buffers r' = \<lparr> resources = (resources (buffers r))(nextHandle (buffers r) \<mapsto>
                            \<lparr> buffer = ringBuffer r, ringBufferAlloc = False, offset = 0,
                              size_gl = ringBufSize r, type_gl = Everything \<rparr>),
                     nextHandle = Suc (nextHandle (buffers r)) \<rparr> \<and>
     frames r' = (frames r)[currentFrameIdx r :=
                   (frames r ! currentFrameIdx r)\<lparr> ephemeralBuffers :=
                      ephemeralBuffers (frames r ! currentFrameIdx r) @ [nextHandle (buffers r)] \<rparr>] \<and>
     ringBufPtr r' = 0 \<and> ringBufSize r' = newSize \<and> ringBuffer r' = newName \<and>
     persistentMapInUse r' = (\<not> tracing r) \<and>
     persistentMapping r' = (if tracing r then None else Some newName) \<and>
     glCalls r' = glCalls r
        @ (if persistentMapInUse r then [glUnmapNamedBuffer (ringBuffer r)] else [])
        @ [glCreateBuffers newName,
           glNamedBufferStorage newName newSize
             (if tracing r then [GL_DYNAMIC_STORAGE_BIT, GL_MAP_READ_BIT]
              else [GL_MAP_WRITE_BIT, GL_MAP_PERSISTENT_BIT, GL_MAP_COHERENT_BIT])]
        @ (if tracing r then []
           else [glMapNamedBufferRange newName newSize
                   [GL_MAP_WRITE_BIT, GL_MAP_PERSISTENT_BIT, GL_MAP_COHERENT_BIT]])"
  using ring ns nn pm
  by (cases "persistentMapInUse r"; cases "tracing r")
     (simp_all add: recreateRingBuffer_def retireRingBuffer_Inr [OF sz cur] Let_def)

text \<open>
  Claim C7.  \<open>recreateRingBuffer\<close> on a renderer that has a ring returns, and then: the
  old ring is an owned buffer (\<open>ringBufferAlloc\<close> false, offset 0, the old size) under a
  fresh handle, appended to the ephemeral buffers of the current frame; the buffers that
  existed keep offset and size; the cursor is 0 and the ring is a new buffer of the new
  size, for which OpenGL has been sent exactly \<open>glUnmapNamedBuffer\<close> of the old ring
  (when it was mapped), \<open>glCreateBuffers\<close>, \<open>glNamedBufferStorage\<close> with the new size and
  \<open>glMapNamedBufferRange\<close> (unless tracing), and no \<open>glDeleteBuffers\<close>.  The old ring
  is deleted when a frame that lists it retires, and not before: on such a frame, once
  outstanding with its buffers live, \<open>waitForFrame\<close> with a timed-out fence returns false
  and sends only the fence wait, leaving the buffers as they are, and \<open>waitForFrame\<close> with a
  signaled fence returns true, sends \<open>glDeleteBuffers\<close> for the old ring among the
  frame's deletions and frees the handle.
\<close>

theorem recreateRingBuffer_retires_old_ring:
  assumes ring: "ringBuffer r \<noteq> 0" and sz: "ringBufSize r \<noteq> 0"
      and ns: "0 < newSize" and nn: "newName \<noteq> 0"
      and cur: "currentFrameIdx r < length (frames r)"
      and pm: "persistentMapInUse r \<or> persistentMapping r = None"
  shows "\<exists>r'.
     recreateRingBuffer r newSize newName = Inr r' \<and>
     resources (buffers r') (nextHandle (buffers r))
       = Some \<lparr> buffer = ringBuffer r, ringBufferAlloc = False, offset = 0,
                size_gl = ringBufSize r, type_gl = Everything \<rparr> \<and>
     (\<forall>h. h \<noteq> nextHandle (buffers r) \<longrightarrow> resources (buffers r') h = resources (buffers r) h) \<and>
     frames r' = (frames r)[currentFrameIdx r :=
                   (frames r ! currentFrameIdx r)\<lparr> ephemeralBuffers :=
                      ephemeralBuffers (frames r ! currentFrameIdx r) @ [nextHandle (buffers r)] \<rparr>] \<and>
     ringBufPtr r' = 0 \<and> ringBufSize r' = newSize \<and> ringBuffer r' = newName \<and>
     glCalls r' = glCalls r
        @ (if persistentMapInUse r then [glUnmapNamedBuffer (ringBuffer r)] else [])
        @ [glCreateBuffers newName,
           glNamedBufferStorage newName newSize
             (if tracing r then [GL_DYNAMIC_STORAGE_BIT, GL_MAP_READ_BIT]
              else [GL_MAP_WRITE_BIT, GL_MAP_PERSISTENT_BIT, GL_MAP_COHERENT_BIT])]
        @ (if tracing r then []
           else [glMapNamedBufferRange newName newSize
                   [GL_MAP_WRITE_BIT, GL_MAP_PERSISTENT_BIT, GL_MAP_COHERENT_BIT]]) \<and>
     (\<forall>r2 idx f.
        idx < length (frames r2) \<and> outstanding (frames r2 ! idx) \<and>
        fence (frames r2 ! idx) = Some f \<and>
        retirable (buffers r2) (ephemeralBuffers (frames r2 ! idx)) \<and>
        nextHandle (buffers r) \<in> set (ephemeralBuffers (frames r2 ! idx)) \<and>
        resources (buffers r2) (nextHandle (buffers r)) = resources (buffers r') (nextHandle (buffers r))
        \<longrightarrow>
          (\<exists>r3. waitForFrame r2 idx GL_TIMEOUT_EXPIRED = Inr (r3, False) \<and>
                 glCalls r3 = glCalls r2 @ [glClientWaitSync f] \<and>
                 buffers r3 = buffers r2 \<and> frames r3 = frames r2) \<and>
          (\<forall>res. res = GL_ALREADY_SIGNALED \<or> res = GL_CONDITION_SATISFIED \<longrightarrow>
             (\<exists>r3. waitForFrame r2 idx res = Inr (r3, True) \<and>
                   glCalls r3 = glCalls r2 @ [glClientWaitSync f, glDeleteSync f]
                      @ ownedDeletes (buffers r2) (ephemeralBuffers (frames r2 ! idx)) \<and>
                   glDeleteBuffers (ringBuffer r)
                      \<in> set (ownedDeletes (buffers r2) (ephemeralBuffers (frames r2 ! idx))) \<and>
                   resources (buffers r3) (nextHandle (buffers r)) = None)))"
proof -
  let ?h = "nextHandle (buffers r)"
  let ?b = "\<lparr> buffer = ringBuffer r, ringBufferAlloc = False, offset = 0,
              size_gl = ringBufSize r, type_gl = Everything \<rparr>"
  from recreateRingBuffer_calls [OF ring sz ns nn cur pm]
  obtain r' where r': "recreateRingBuffer r newSize newName = Inr r'"
    and bs: "buffers r' = \<lparr> resources = (resources (buffers r))(?h \<mapsto> ?b),
                             nextHandle = Suc ?h \<rparr>"
    and f: "frames r' = (frames r)[currentFrameIdx r :=
                   (frames r ! currentFrameIdx r)\<lparr> ephemeralBuffers :=
                      ephemeralBuffers (frames r ! currentFrameIdx r) @ [?h] \<rparr>]"
    and p: "ringBufPtr r' = 0" "ringBufSize r' = newSize" "ringBuffer r' = newName"
    and g: "glCalls r' = glCalls r
        @ (if persistentMapInUse r then [glUnmapNamedBuffer (ringBuffer r)] else [])
        @ [glCreateBuffers newName,
           glNamedBufferStorage newName newSize
             (if tracing r then [GL_DYNAMIC_STORAGE_BIT, GL_MAP_READ_BIT]
              else [GL_MAP_WRITE_BIT, GL_MAP_PERSISTENT_BIT, GL_MAP_COHERENT_BIT])]
        @ (if tracing r then []
           else [glMapNamedBufferRange newName newSize
                   [GL_MAP_WRITE_BIT, GL_MAP_PERSISTENT_BIT, GL_MAP_COHERENT_BIT]])"
    by blast
  from bs have b: "resources (buffers r') ?h = Some ?b"
    and o: "\<forall>h. h \<noteq> ?h \<longrightarrow> resources (buffers r') h = resources (buffers r) h"
    by simp_all
  have w: "\<forall>r2 idx f.
        idx < length (frames r2) \<and> outstanding (frames r2 ! idx) \<and>
        fence (frames r2 ! idx) = Some f \<and>
        retirable (buffers r2) (ephemeralBuffers (frames r2 ! idx)) \<and>
        ?h \<in> set (ephemeralBuffers (frames r2 ! idx)) \<and>
        resources (buffers r2) ?h = resources (buffers r') ?h
        \<longrightarrow>
          (\<exists>r3. waitForFrame r2 idx GL_TIMEOUT_EXPIRED = Inr (r3, False) \<and>
                 glCalls r3 = glCalls r2 @ [glClientWaitSync f] \<and>
                 buffers r3 = buffers r2 \<and> frames r3 = frames r2) \<and>
          (\<forall>res. res = GL_ALREADY_SIGNALED \<or> res = GL_CONDITION_SATISFIED \<longrightarrow>
             (\<exists>r3. waitForFrame r2 idx res = Inr (r3, True) \<and>
                   glCalls r3 = glCalls r2 @ [glClientWaitSync f, glDeleteSync f]
                      @ ownedDeletes (buffers r2) (ephemeralBuffers (frames r2 ! idx)) \<and>
                   glDeleteBuffers (ringBuffer r)
                      \<in> set (ownedDeletes (buffers r2) (ephemeralBuffers (frames r2 ! idx))) \<and>
                   resources (buffers r3) ?h = None))"
  proof (intro allI impI, elim conjE)
    fix r2 :: RendererImpl and idx f
    assume idx: "idx < length (frames r2)" and out: "outstanding (frames r2 ! idx)"
      and fen: "fence (frames r2 ! idx) = Some f"
      and wf: "retirable (buffers r2) (ephemeralBuffers (frames r2 ! idx))"
      and m: "?h \<in> set (ephemeralBuffers (frames r2 ! idx))"
      and e: "resources (buffers r2) ?h = resources (buffers r') ?h"
    from e b have e': "resources (buffers r2) ?h = Some ?b" by simp
    have del: "glDeleteBuffers (ringBuffer r)
                 \<in> set (ownedDeletes (buffers r2) (ephemeralBuffers (frames r2 ! idx)))"
      using ownedDeletes_mem [OF m e'] by simp
    have t: "\<exists>r3. waitForFrame r2 idx GL_TIMEOUT_EXPIRED = Inr (r3, False) \<and>
                 glCalls r3 = glCalls r2 @ [glClientWaitSync f] \<and>
                 buffers r3 = buffers r2 \<and> frames r3 = frames r2"
      by (simp add: waitForFrame_timeout [OF idx out fen])
    have s: "\<forall>res. res = GL_ALREADY_SIGNALED \<or> res = GL_CONDITION_SATISFIED \<longrightarrow>
             (\<exists>r3. waitForFrame r2 idx res = Inr (r3, True) \<and>
                   glCalls r3 = glCalls r2 @ [glClientWaitSync f, glDeleteSync f]
                      @ ownedDeletes (buffers r2) (ephemeralBuffers (frames r2 ! idx)) \<and>
                   glDeleteBuffers (ringBuffer r)
                      \<in> set (ownedDeletes (buffers r2) (ephemeralBuffers (frames r2 ! idx))) \<and>
                   resources (buffers r3) ?h = None)"
    proof (intro allI impI)
      fix res assume res: "res = GL_ALREADY_SIGNALED \<or> res = GL_CONDITION_SATISFIED"
      from waitForFrame_signaled [OF idx out fen wf res] obtain r3 where
        w3: "waitForFrame r2 idx res = Inr (r3, True)"
        and b3: "buffers r3 = (buffers r2)\<lparr> resources := resources (buffers r2)
                               |` (- set (ephemeralBuffers (frames r2 ! idx))) \<rparr>"
        and g3: "glCalls r3 = glCalls r2 @ [glClientWaitSync f, glDeleteSync f]
                 @ ownedDeletes (buffers r2) (ephemeralBuffers (frames r2 ! idx))"
        by blast
      from b3 m have "resources (buffers r3) ?h = None" by simp
      with w3 g3 del show "\<exists>r3. waitForFrame r2 idx res = Inr (r3, True) \<and>
                   glCalls r3 = glCalls r2 @ [glClientWaitSync f, glDeleteSync f]
                      @ ownedDeletes (buffers r2) (ephemeralBuffers (frames r2 ! idx)) \<and>
                   glDeleteBuffers (ringBuffer r)
                      \<in> set (ownedDeletes (buffers r2) (ephemeralBuffers (frames r2 ! idx))) \<and>
                   resources (buffers r3) ?h = None"
        by blast
    qed
    from t s show "(\<exists>r3. waitForFrame r2 idx GL_TIMEOUT_EXPIRED = Inr (r3, False) \<and>
                 glCalls r3 = glCalls r2 @ [glClientWaitSync f] \<and>
                 buffers r3 = buffers r2 \<and> frames r3 = frames r2) \<and>
          (\<forall>res. res = GL_ALREADY_SIGNALED \<or> res = GL_CONDITION_SATISFIED \<longrightarrow>
             (\<exists>r3. waitForFrame r2 idx res = Inr (r3, True) \<and>
                   glCalls r3 = glCalls r2 @ [glClientWaitSync f, glDeleteSync f]
                      @ ownedDeletes (buffers r2) (ephemeralBuffers (frames r2 ! idx)) \<and>
                   glDeleteBuffers (ringBuffer r)
                      \<in> set (ownedDeletes (buffers r2) (ephemeralBuffers (frames r2 ! idx))) \<and>
                   resources (buffers r3) ?h = None))"
      by (rule conjI)
  qed
  from r' b o f p g w show ?thesis by blast
qed

theorem recreateRingBuffer_retires_old_ring_witness:
  "ringBuffer demoRenderer = 1 \<and> ringBufSize demoRenderer = 1024 \<and>
   (0 :: u32) < 2048 \<and> (2 :: nat) \<noteq> 0 \<and>
   currentFrameIdx demoRenderer < length (frames demoRenderer) \<and>
   persistentMapInUse demoRenderer \<and> \<not> tracing demoRenderer \<and>
   nextHandle (buffers demoRenderer) = 1 \<and>
   (\<exists>r'. recreateRingBuffer demoRenderer 2048 2 = Inr r' \<and>
         resources (buffers r') 1
           = Some \<lparr> buffer = 1, ringBufferAlloc = False, offset = 0, size_gl = 1024,
                    type_gl = Everything \<rparr> \<and>
         ephemeralBuffers (frames r' ! 0) = [1] \<and>
         ringBufPtr r' = 0 \<and> ringBufSize r' = 2048 \<and> ringBuffer r' = 2 \<and>
         glCalls r' = glCalls demoRenderer
            @ [glUnmapNamedBuffer 1, glCreateBuffers 2,
               glNamedBufferStorage 2 2048 [GL_MAP_WRITE_BIT, GL_MAP_PERSISTENT_BIT, GL_MAP_COHERENT_BIT],
               glMapNamedBufferRange 2 2048 [GL_MAP_WRITE_BIT, GL_MAP_PERSISTENT_BIT, GL_MAP_COHERENT_BIT]]) \<and>
   outstanding (frames demoOutstanding ! 0) \<and>
   fence (frames demoOutstanding ! 0) = Some 9 \<and>
   ephemeralBuffers (frames demoOutstanding ! 0) = [1, 2] \<and>
   retirable (buffers demoOutstanding) (ephemeralBuffers (frames demoOutstanding ! 0)) \<and>
   (\<exists>r3. waitForFrame demoOutstanding 0 GL_TIMEOUT_EXPIRED = Inr (r3, False) \<and>
         glCalls r3 = glCalls demoOutstanding @ [glClientWaitSync 9] \<and>
         buffers r3 = buffers demoOutstanding) \<and>
   (\<exists>r3. waitForFrame demoOutstanding 0 GL_CONDITION_SATISFIED = Inr (r3, True) \<and>
         glCalls r3 = glCalls demoOutstanding
                        @ [glClientWaitSync 9, glDeleteSync 9, glDeleteBuffers 1] \<and>
         resources (buffers r3) 1 = None)"
proof -
  have ring: "ringBuffer demoRenderer \<noteq> 0" and r1: "ringBuffer demoRenderer = 1"
    by (simp_all add: gl_demo_defs)
  have sz: "ringBufSize demoRenderer \<noteq> 0" and s1: "ringBufSize demoRenderer = 1024"
    by (simp_all add: gl_demo_defs)
  have ns: "(0 :: u32) < 2048" by simp
  have nn: "(2 :: nat) \<noteq> 0" by simp
  have cur: "currentFrameIdx demoRenderer < length (frames demoRenderer)"
    and c0: "currentFrameIdx demoRenderer = 0"
    and e0: "ephemeralBuffers (frames demoRenderer ! 0) = []"
    by (simp_all add: gl_demo_defs)
  have pm: "persistentMapInUse demoRenderer \<or> persistentMapping demoRenderer = None"
    and p1: "persistentMapInUse demoRenderer" and tr: "\<not> tracing demoRenderer"
    by (simp_all add: gl_demo_defs)
  have nh: "nextHandle (buffers demoRenderer) = 1" by (simp add: gl_demo_defs)
  have idx: "0 < length (frames demoOutstanding)" by (simp add: gl_demo_defs)
  have out: "outstanding (frames demoOutstanding ! 0)" by (simp add: gl_demo_defs)
  have fen: "fence (frames demoOutstanding ! 0) = Some 9" by (simp add: gl_demo_defs)
  have hs: "ephemeralBuffers (frames demoOutstanding ! 0) = [1, 2]" by (simp add: gl_demo_defs)
  have wf: "retirable (buffers demoOutstanding) (ephemeralBuffers (frames demoOutstanding ! 0))"
    by (simp add: gl_demo_defs retirable_def)
  have od: "ownedDeletes (buffers demoOutstanding) (ephemeralBuffers (frames demoOutstanding ! 0))
              = [glDeleteBuffers 1]"
    by (simp add: gl_demo_defs ownedDeletes_def)
  have b2: "resources (buffers demoOutstanding) 1
               = Some \<lparr> buffer = 1, ringBufferAlloc = False, offset = 0, size_gl = 1024,
                        type_gl = Everything \<rparr>"
    by (simp add: gl_demo_defs)
  from recreateRingBuffer_retires_old_ring [OF ring sz ns nn cur pm]
  obtain r' where a: "recreateRingBuffer demoRenderer 2048 2 = Inr r'"
    and b: "resources (buffers r') 1
           = Some \<lparr> buffer = 1, ringBufferAlloc = False, offset = 0, size_gl = 1024,
                    type_gl = Everything \<rparr>"
    and f: "frames r' = (frames demoRenderer)[0 :=
                   (frames demoRenderer ! 0)\<lparr> ephemeralBuffers := [1] \<rparr>]"
    and p: "ringBufPtr r' = 0" "ringBufSize r' = 2048" "ringBuffer r' = 2"
    and g: "glCalls r' = glCalls demoRenderer
            @ [glUnmapNamedBuffer 1, glCreateBuffers 2,
               glNamedBufferStorage 2 2048 [GL_MAP_WRITE_BIT, GL_MAP_PERSISTENT_BIT, GL_MAP_COHERENT_BIT],
               glMapNamedBufferRange 2 2048 [GL_MAP_WRITE_BIT, GL_MAP_PERSISTENT_BIT, GL_MAP_COHERENT_BIT]]"
    and w: "idx < length (frames r2) \<and> outstanding (frames r2 ! idx) \<and>
        fence (frames r2 ! idx) = Some fn \<and>
        retirable (buffers r2) (ephemeralBuffers (frames r2 ! idx)) \<and>
        1 \<in> set (ephemeralBuffers (frames r2 ! idx)) \<and>
        resources (buffers r2) 1 = resources (buffers r') 1
        \<longrightarrow>
          (\<exists>r3. waitForFrame r2 idx GL_TIMEOUT_EXPIRED = Inr (r3, False) \<and>
                 glCalls r3 = glCalls r2 @ [glClientWaitSync fn] \<and>
                 buffers r3 = buffers r2 \<and> frames r3 = frames r2) \<and>
          (\<forall>res. res = GL_ALREADY_SIGNALED \<or> res = GL_CONDITION_SATISFIED \<longrightarrow>
             (\<exists>r3. waitForFrame r2 idx res = Inr (r3, True) \<and>
                   glCalls r3 = glCalls r2 @ [glClientWaitSync fn, glDeleteSync fn]
                      @ ownedDeletes (buffers r2) (ephemeralBuffers (frames r2 ! idx)) \<and>
                   glDeleteBuffers 1
                      \<in> set (ownedDeletes (buffers r2) (ephemeralBuffers (frames r2 ! idx))) \<and>
                   resources (buffers r3) 1 = None))" for r2 idx fn
    unfolding r1 s1 c0 e0 nh using p1 tr by auto
  from f cur c0 have eb: "ephemeralBuffers (frames r' ! 0) = [1]" by simp
  from w [of 0 demoOutstanding 9] idx out fen wf hs b b2
  have t: "\<exists>r3. waitForFrame demoOutstanding 0 GL_TIMEOUT_EXPIRED = Inr (r3, False) \<and>
         glCalls r3 = glCalls demoOutstanding @ [glClientWaitSync 9] \<and>
         buffers r3 = buffers demoOutstanding"
    and s: "\<exists>r3. waitForFrame demoOutstanding 0 GL_CONDITION_SATISFIED = Inr (r3, True) \<and>
         glCalls r3 = glCalls demoOutstanding
                        @ [glClientWaitSync 9, glDeleteSync 9, glDeleteBuffers 1] \<and>
         resources (buffers r3) 1 = None"
    unfolding od by auto
  from a b eb p g have "\<exists>r'. recreateRingBuffer demoRenderer 2048 2 = Inr r' \<and>
         resources (buffers r') 1
           = Some \<lparr> buffer = 1, ringBufferAlloc = False, offset = 0, size_gl = 1024,
                    type_gl = Everything \<rparr> \<and>
         ephemeralBuffers (frames r' ! 0) = [1] \<and>
         ringBufPtr r' = 0 \<and> ringBufSize r' = 2048 \<and> ringBuffer r' = 2 \<and>
         glCalls r' = glCalls demoRenderer
            @ [glUnmapNamedBuffer 1, glCreateBuffers 2,
               glNamedBufferStorage 2 2048 [GL_MAP_WRITE_BIT, GL_MAP_PERSISTENT_BIT, GL_MAP_COHERENT_BIT],
               glMapNamedBufferRange 2 2048 [GL_MAP_WRITE_BIT, GL_MAP_PERSISTENT_BIT, GL_MAP_COHERENT_BIT]]"
    by blast
  with t s r1 s1 ns nn cur p1 tr nh out fen hs wf show ?thesis by (simp only: simp_thms)
qed

subsection \<open>Descriptor binding\<close>








lemma rebindUBOs_drawn [simp]:
  "rebindUBOs (r\<lparr> pipelineDrawn := v \<rparr>) sizes xs i = rebindUBOs r sizes xs i"
  by (induction xs arbitrary: i) (auto split: option.splits Descriptor.splits sum.splits CSampler.splits)

lemma rebindSSBOs_drawn [simp]:
  "rebindSSBOs (r\<lparr> pipelineDrawn := v \<rparr>) xs i = rebindSSBOs r xs i"
  by (induction xs arbitrary: i) (auto split: option.splits Descriptor.splits sum.splits CSampler.splits)

lemma rebindTextures_drawn [simp]:
  "rebindTextures (r\<lparr> pipelineDrawn := v \<rparr>) xs i = rebindTextures r xs i"
  by (induction xs arbitrary: i) (auto split: option.splits Descriptor.splits sum.splits CSampler.splits)

lemma rebindSamplers_drawn [simp]:
  "rebindSamplers (r\<lparr> pipelineDrawn := v \<rparr>) xs i = rebindSamplers r xs i"
  by (induction xs arbitrary: i) (auto split: option.splits Descriptor.splits sum.splits CSampler.splits)







section \<open>Properties of the render graph\<close>

lemmas rg_defs = specExampleGraph_def keepExampleGraph_def builtLayouts_def thenE_def emptyGraph_def
  freshBackend_def colorLayouts_def renderTarget_def renderPass_def presentRenderTarget_def
  color_pass_def inputRendertarget_def PassDesc_ctor_def RenderPassDesc_ctor_def emplace_def
  assign_def build_def initialLayouts_def layoutRenderPass_def inferDepth_def color_rp_def
  buildRenderPassFramebuffer_def backendCreate_def backendCall_def Let_def

lemmas demo_defs = rg_defs demoGraph_def demoKeepGraph_def demoBuilt_def targetDesc_def
  resetCalls_def builtPassHandles_def reset_def backendWaitForDeviceIdle_def

subsection \<open>Layout inference\<close>

lemma inferColors_unused:
  "id_rt u = Rendertargets_Invalid \<Longrightarrow> inferColors rts (replicate m u) i rpd cl = Inr (rpd, cl)"
  by (induction m arbitrary: i) simp_all

lemma framebufferColors_unused:
  "id_rt u = Rendertargets_Invalid \<Longrightarrow> framebufferColors rts (replicate m u) i fbd = Inr fbd"
  by (induction m arbitrary: i) simp_all

lemma hasExternalColor_unused:
  "id_rt u = Rendertargets_Invalid \<Longrightarrow> hasExternalColor rts (replicate m u) = Inr False"
  by (induction m) simp_all

lemma filter_zip_unused:
  "id_rt u = Rendertargets_Invalid \<Longrightarrow>
     filter (\<lambda>(rt, c). id_rt rt \<noteq> Rendertargets_Invalid) (zip (replicate m u) cs) = []"
  by (induction m arbitrary: cs) (auto simp: zip_Cons1 split: list.splits)

lemmas unused_slots = inferColors_unused framebufferColors_unused hasExternalColor_unused
  filter_zip_unused

text \<open>
  Claim C1.  The graph of the spec's example is declared through the graph's own
  functions (internal targets \<open>A\<close> and \<open>B\<close> with valid formats, \<open>P1\<close> writes \<open>A\<close> with
  begin = Clear, \<open>P2\<close> reads \<open>A\<close> and writes \<open>B\<close> with begin = Clear, \<open>B\<close> presented)
  and built.  The backward pass resolves slot 0 of \<open>P1\<close> to the final layout
  shader-readable and slot 0 of \<open>P2\<close> to transfer-source, whatever the number of colour
  slots of a pass.
\<close>

theorem example_graph_final_layouts:
  assumes "0 < n" and "format_rt dA \<noteq> Format_Invalid" and "format_rt dB \<noteq> Format_Invalid"
      and "A \<noteq> B" and "A \<noteq> Rendertargets_Invalid" and "B \<noteq> Rendertargets_Invalid"
      and "P1 \<noteq> P2"
  shows "builtLayouts (specExampleGraph n A dA B dB P1 P2) P1 = Inr [(Clear, Undefined, ShaderRead)] \<and>
         builtLayouts (specExampleGraph n A dA B dB P1 P2) P2 = Inr [(Clear, Undefined, TransferSrc)]"
proof -
  from assms(1) obtain m where n: "n = Suc m" by (cases n) simp_all
  show ?thesis using assms(2-) unfolding n
    by (simp add: rg_defs unused_slots)
qed

theorem example_graph_final_layouts_witness:
  "0 < (2 :: nat) \<and> format_rt (targetDesc RGBA8 ''A'') \<noteq> Format_Invalid \<and>
   format_rt (targetDesc sRGBA8 ''B'') \<noteq> Format_Invalid \<and> MainColor \<noteq> FinalRender \<and>
   Scene \<noteq> Final \<and>
   builtLayouts demoGraph Scene = Inr [(Clear, Undefined, ShaderRead)] \<and>
   builtLayouts demoGraph Final = Inr [(Clear, Undefined, TransferSrc)]"
  using example_graph_final_layouts [of 2 "targetDesc RGBA8 ''A''" "targetDesc sRGBA8 ''B''"
          MainColor FinalRender Scene Final]
  by (simp add: demoGraph_def targetDesc_def)

text \<open>
  Claim C2, as stated, on a graph whose only pass writes the present target with
  begin = Keep: when the backward pass reaches the attachment its currently inferred
  layout is transfer-source (it becomes the final layout), and the initial layout the pass
  is given is the constant colour-attachment.
\<close>

theorem keep_initial_layout_differs_from_current:
  "builtLayouts demoKeepGraph Final = Inr [(Keep, ColorAttachment, TransferSrc)] \<and>
   ColorAttachment \<noteq> TransferSrc"
  by (simp add: demo_defs numeral_2_eq_2)

lemma map_of_assign_same:
  "map_of m k = Some v0 \<Longrightarrow> map_of (assign k v m) k = Some v"
  by (induction m) (auto simp: assign_def split: if_splits)

lemma map_of_assign_other:
  "k' \<noteq> k \<Longrightarrow> map_of (assign k v m) k' = map_of m k'"
  by (induction m) (auto simp: assign_def split: if_splits)

lemma inferColors_slots:
  assumes "inferColors rts cs i rpd cl = Inr (rpd', cl')"
      and "i + length cs \<le> length (colorRTs_rp rpd)"
  shows "length (colorRTs_rp rpd') = length (colorRTs_rp rpd) \<and>
         (\<forall>k < i. colorRTs_rp rpd' ! k = colorRTs_rp rpd ! k) \<and>
         (\<forall>j < length cs. id_rt (cs ! j) \<noteq> Rendertargets_Invalid \<longrightarrow>
            initialLayout (colorRTs_rp rpd' ! (i + j))
              = (if passBegin (cs ! j) = Keep then ColorAttachment else Undefined))"
  using assms
proof (induction cs arbitrary: i rpd cl)
  case Nil
  then show ?case by simp
next
  case (Cons c cs)
  show ?case
  proof (cases "id_rt c = Rendertargets_Invalid")
    case True
    with Cons.prems have rec: "inferColors rts cs (Suc i) rpd cl = Inr (rpd', cl')" by simp
    from Cons.prems have len: "Suc i + length cs \<le> length (colorRTs_rp rpd)" by simp
    note ih = Cons.IH [OF rec len]
    show ?thesis
    proof (intro conjI allI impI)
      show "length (colorRTs_rp rpd') = length (colorRTs_rp rpd)" using ih by simp
      fix k assume "k < i"
      then show "colorRTs_rp rpd' ! k = colorRTs_rp rpd ! k" using ih by simp
    next
      fix j assume j: "j < length (c # cs)" and u: "id_rt ((c # cs) ! j) \<noteq> Rendertargets_Invalid"
      with True obtain j' where j': "j = Suc j'" by (cases j) auto
      with j u ih show "initialLayout (colorRTs_rp rpd' ! (i + j))
              = (if passBegin ((c # cs) ! j) = Keep then ColorAttachment else Undefined)"
        by simp
    qed
  next
    case False
    with Cons.prems obtain t where t: "map_of rts (id_rt c) = Some t"
      by (auto split: option.splits)
    let ?initial = "if passBegin c = Keep then ColorAttachment else Undefined"
    let ?final = "case cl (id_rt c) of None \<Rightarrow> ColorAttachment | Some l \<Rightarrow> l"
    let ?rpd1 = "color_rp i (getFormat t) (passBegin c) ?initial ?final (clearValue c) rpd"
    from Cons.prems False t
    have rec: "inferColors rts cs (Suc i) ?rpd1 (cl(id_rt c \<mapsto> ?initial)) = Inr (rpd', cl')"
      by (simp add: Let_def split: if_splits)
    have l1: "length (colorRTs_rp ?rpd1) = length (colorRTs_rp rpd)" by (simp add: color_rp_def)
    from Cons.prems have len: "Suc i + length cs \<le> length (colorRTs_rp ?rpd1)" by (simp add: l1)
    note ih = Cons.IH [OF rec len]
    from Cons.prems have ilt: "i < length (colorRTs_rp rpd)" by simp
    show ?thesis
    proof (intro conjI allI impI)
      show "length (colorRTs_rp rpd') = length (colorRTs_rp rpd)" using ih l1 by simp
      fix k assume "k < i"
      then show "colorRTs_rp rpd' ! k = colorRTs_rp rpd ! k" using ih
        by (simp add: color_rp_def)
    next
      fix j assume j: "j < length (c # cs)" and u: "id_rt ((c # cs) ! j) \<noteq> Rendertargets_Invalid"
      show "initialLayout (colorRTs_rp rpd' ! (i + j))
              = (if passBegin ((c # cs) ! j) = Keep then ColorAttachment else Undefined)"
      proof (cases j)
        case 0
        from ih have "colorRTs_rp rpd' ! i = colorRTs_rp ?rpd1 ! i" by simp
        with ilt 0 show ?thesis by (simp add: color_rp_def)
      next
        case (Suc j')
        with j u ih show ?thesis by simp
      qed
    qed
  qed
qed

lemma inferDepth_colors:
  "inferDepth rts d rpd = Inr rpd1 \<Longrightarrow> colorRTs_rp rpd1 = colorRTs_rp rpd"
  by (auto simp: inferDepth_def Let_def split: if_splits option.splits)

lemma layoutRenderPass_effect:
  assumes ok: "layoutRenderPass g k cl = Inr (g', cl')"
      and inv: "\<forall>k p. map_of (renderPasses g) k = Some p \<longrightarrow> slotsMatch p"
  shows "(\<forall>k'. k' \<noteq> k \<longrightarrow> map_of (renderPasses g') k' = map_of (renderPasses g) k') \<and>
         (\<exists>p'. map_of (renderPasses g') k = Some p' \<and> slotsMatch p' \<and> initialLayoutsResolved p')"
proof -
  from ok obtain rp where rp: "map_of (renderPasses g) k = Some rp"
    by (auto simp: layoutRenderPass_def split: option.splits)
  let ?d = "desc_rp rp"
  let ?rpd0 = "(rpDesc rp)\<lparr> name_rp := name_pass ?d, numSamples_rp := numSamples_pass ?d \<rparr>"
  from ok rp obtain rpd1 rpd2 cl2 where
      d: "inferDepth (rendertargets g) ?d ?rpd0 = Inr rpd1"
      and c: "inferColors (rendertargets g) (colorRTs_pass ?d) 0 rpd1 cl = Inr (rpd2, cl2)"
      and g': "renderPasses g' = assign k (rp\<lparr> rpDesc := rpd2 \<rparr>) (renderPasses g)"
    by (auto simp: layoutRenderPass_def Let_def split: sum.splits)
  from inv rp have sm: "length (colorRTs_rp (rpDesc rp)) = length (colorRTs_pass ?d)"
    by (simp add: slotsMatch_def)
  from inferDepth_colors [OF d] sm
  have l1: "length (colorRTs_rp rpd1) = length (colorRTs_pass ?d)" by simp
  then have l: "0 + length (colorRTs_pass ?d) \<le> length (colorRTs_rp rpd1)" by simp
  note s = inferColors_slots [OF c l]
  from s l1 have l2: "length (colorRTs_rp rpd2) = length (colorRTs_pass ?d)" by simp
  let ?p' = "rp\<lparr> rpDesc := rpd2 \<rparr>"
  have m: "map_of (renderPasses g') k = Some ?p'"
    unfolding g' using rp by (rule map_of_assign_same)
  have sm': "slotsMatch ?p'" using l2 by (simp add: slotsMatch_def)
  have "initialLayoutsResolved ?p'"
    unfolding initialLayoutsResolved_def list_all_length
  proof (intro allI impI)
    fix n assume "n < length (zip (colorRTs_pass (desc_rp ?p')) (colorRTs_rp (rpDesc ?p')))"
    then have n: "n < length (colorRTs_pass ?d)" by simp
    with l2 have n2: "n < length (colorRTs_rp rpd2)" by simp
    from s n have "id_rt (colorRTs_pass ?d ! n) \<noteq> Rendertargets_Invalid \<longrightarrow>
        initialLayout (colorRTs_rp rpd2 ! n)
          = (if passBegin (colorRTs_pass ?d ! n) = Keep then ColorAttachment else Undefined)"
      by simp
    with n n2 show "case zip (colorRTs_pass (desc_rp ?p')) (colorRTs_rp (rpDesc ?p')) ! n of
        (rt, c) \<Rightarrow> id_rt rt \<noteq> Rendertargets_Invalid \<longrightarrow>
                  initialLayout c = (if passBegin rt = Keep then ColorAttachment else Undefined)"
      by simp
  qed
  moreover have "\<forall>k'. k' \<noteq> k \<longrightarrow> map_of (renderPasses g') k' = map_of (renderPasses g) k'"
    unfolding g' by (simp add: map_of_assign_other)
  ultimately show ?thesis using m sm' by blast
qed

lemma layoutOperation_effect:
  assumes ok: "layoutOperation g op cl = Inr (g', op', cl')"
      and inv: "\<forall>k p. map_of (renderPasses g) k = Some p \<longrightarrow> slotsMatch p"
  shows "(\<forall>k p. map_of (renderPasses g') k = Some p \<longrightarrow> slotsMatch p) \<and>
         (\<forall>k. op \<noteq> RenderPassOp k \<longrightarrow> map_of (renderPasses g') k = map_of (renderPasses g) k) \<and>
         (\<forall>k. op = RenderPassOp k \<longrightarrow>
             (\<exists>p'. map_of (renderPasses g') k = Some p' \<and> initialLayoutsResolved p'))"
proof (cases op)
  case (Blit s d fl)
  with ok have "g' = g" by (auto simp: Let_def split: prod.splits)
  with Blit inv show ?thesis by simp
next
  case (ResolveMSAA s d fl)
  with ok have "g' = g" by (auto simp: Let_def split: prod.splits)
  with ResolveMSAA inv show ?thesis by simp
next
  case (RenderPassOp k)
  with ok obtain cl2 where l: "layoutRenderPass g k cl = Inr (g', cl2)"
    by (auto split: sum.splits)
  note e = layoutRenderPass_effect [OF l inv]
  show ?thesis
  proof (intro conjI allI impI)
    fix k' p assume m: "map_of (renderPasses g') k' = Some p"
    show "slotsMatch p"
    proof (cases "k' = k")
      case True
      with e m show ?thesis by auto
    next
      case False
      with e m inv show ?thesis by auto
    qed
  next
    fix k' assume "op \<noteq> RenderPassOp k'"
    with RenderPassOp have "k' \<noteq> k" by auto
    with e show "map_of (renderPasses g') k' = map_of (renderPasses g) k'" by blast
  next
    fix k' assume "op = RenderPassOp k'"
    with RenderPassOp have "k' = k" by simp
    with e show "\<exists>p'. map_of (renderPasses g') k' = Some p' \<and> initialLayoutsResolved p'" by blast
  qed
qed

lemma inferLayouts_effect:
  assumes "inferLayouts g ops cl = Inr (g', ops', cl')"
      and "\<forall>k p. map_of (renderPasses g) k = Some p \<longrightarrow> slotsMatch p"
  shows "(\<forall>k p. map_of (renderPasses g') k = Some p \<longrightarrow> slotsMatch p) \<and>
         (\<forall>k. RenderPassOp k \<in> set ops \<longrightarrow>
             (\<exists>p'. map_of (renderPasses g') k = Some p' \<and> initialLayoutsResolved p'))"
  using assms
proof (induction ops arbitrary: g' ops' cl')
  case Nil
  then show ?case by simp
next
  case (Cons op ops)
  from Cons.prems(1) obtain g1 ops1 cl1 op2 where
    t: "inferLayouts g ops cl = Inr (g1, ops1, cl1)"
    and h: "layoutOperation g1 op cl1 = Inr (g', op2, cl')"
    by (auto split: sum.splits)
  note ih = Cons.IH [OF t Cons.prems(2)]
  from ih have inv1: "\<forall>k p. map_of (renderPasses g1) k = Some p \<longrightarrow> slotsMatch p" by blast
  note e = layoutOperation_effect [OF h inv1]
  show ?case
  proof (intro conjI allI impI)
    fix k p assume "map_of (renderPasses g') k = Some p"
    with e show "slotsMatch p" by blast
  next
    fix k assume k: "RenderPassOp k \<in> set (op # ops)"
    show "\<exists>p'. map_of (renderPasses g') k = Some p' \<and> initialLayoutsResolved p'"
    proof (cases "op = RenderPassOp k")
      case True
      with e show ?thesis by blast
    next
      case False
      with k have "RenderPassOp k \<in> set ops" by simp
      with ih obtain p' where "map_of (renderPasses g1) k = Some p'" "initialLayoutsResolved p'"
        by blast
      moreover from e False have "map_of (renderPasses g') k = map_of (renderPasses g1) k" by blast
      ultimately show ?thesis by simp
    qed
  qed
qed

lemma buildRenderPassFramebuffer_desc:
  "buildRenderPassFramebuffer rts r p = Inr (p', r') \<Longrightarrow>
     desc_rp p' = desc_rp p \<and> rpDesc p' = rpDesc p"
  by (auto simp: buildRenderPassFramebuffer_def Let_def backendCreate_def
           split: sum.splits if_splits option.splits)

lemma createPasses_Cons_Inr:
  assumes "createPasses rts ((k0, temp) # ps) ext r = Inr (ps', ext', r')"
  shows "\<exists>temp' ext1 r1 ps1. desc_rp temp' = desc_rp temp \<and> rpDesc temp' = rpDesc temp \<and>
           createPasses rts ps ext1 r1 = Inr (ps1, ext', r') \<and> ps' = (k0, temp') # ps1"
proof -
  let ?r1 = "fst (backendCreate (createRenderPass (rpDesc temp)) r)"
  let ?h = "snd (backendCreate (createRenderPass (rpDesc temp)) r)"
  let ?t = "temp\<lparr> handle_rp := ?h \<rparr>"
  from assms obtain hasExternal where he: "hasExternalColor rts (colorRTs_pass (desc_rp temp)) = Inr hasExternal"
    by (auto simp: Let_def split: if_splits sum.splits prod.splits)
  show ?thesis
  proof (cases hasExternal)
    case True
    with assms he obtain ps1 where "createPasses rts ps (ext @ [k0]) ?r1 = Inr (ps1, ext', r')"
      "ps' = (k0, ?t) # ps1"
      by (auto simp: Let_def split: if_splits sum.splits prod.splits)
    then show ?thesis by (intro exI [of _ ?t] exI [of _ "ext @ [k0]"] exI [of _ ?r1] exI [of _ ps1]) simp
  next
    case False
    with assms he obtain temp' r2 ps1 where b: "buildRenderPassFramebuffer rts ?r1 ?t = Inr (temp', r2)"
      and c: "createPasses rts ps ext r2 = Inr (ps1, ext', r')" "ps' = (k0, temp') # ps1"
      by (auto simp: Let_def split: if_splits sum.splits prod.splits)
    from buildRenderPassFramebuffer_desc [OF b] have "desc_rp temp' = desc_rp temp \<and> rpDesc temp' = rpDesc temp"
      by simp
    with c show ?thesis by blast
  qed
qed

lemma createPasses_desc:
  "createPasses rts ps ext r = Inr (ps', ext', r') \<Longrightarrow> map_of ps k = Some p \<Longrightarrow>
     \<exists>p'. map_of ps' k = Some p' \<and> desc_rp p' = desc_rp p \<and> rpDesc p' = rpDesc p"
proof (induction ps arbitrary: ext r ps' ext' r')
  case Nil
  then show ?case by simp
next
  case (Cons x ps)
  obtain k0 temp where x: "x = (k0, temp)" by (cases x)
  from createPasses_Cons_Inr [OF Cons.prems(1) [unfolded x]] obtain temp' ext1 r1 ps1 where
    t: "desc_rp temp' = desc_rp temp \<and> rpDesc temp' = rpDesc temp"
    and rec: "createPasses rts ps ext1 r1 = Inr (ps1, ext', r')"
    and ps': "ps' = (k0, temp') # ps1"
    by blast
  show ?case
  proof (cases "k = k0")
    case True
    with Cons.prems(2) x have "p = temp" by simp
    with True t ps' show ?thesis by simp
  next
    case False
    with Cons.prems(2) x have "map_of ps k = Some p" by simp
    from Cons.IH [OF rec this] False ps' show ?thesis by simp
  qed
qed

text \<open>
  Claim C2, amended.  When \<open>build\<close> returns, for every render pass among the operations
  and every used colour slot of it: the inferred initial layout is undefined when the
  begin behaviour is Clear or DontCare, and it is the constant colour-attachment when the
  begin behaviour is Keep, whatever layout the backward pass had inferred for the
  attachment at that point.
\<close>

theorem keep_initial_layout_is_color_attachment:
  assumes ok: "build g r = Inr (g', r')"
      and sm: "list_all (\<lambda>(k, p). slotsMatch p) (renderPasses g)"
      and op: "RenderPassOp k \<in> set (operations g)"
  shows "\<exists>p'. map_of (renderPasses g') k = Some p' \<and> slotsMatch p' \<and> initialLayoutsResolved p'"
proof -
  from ok obtain rts r1 g2 ops cl ps ext where
    il: "inferLayouts (g\<lparr> state := Ready, rendertargets := rts \<rparr>) (operations g)
           (initialLayouts (g\<lparr> state := Ready, rendertargets := rts \<rparr>)) = Inr (g2, ops, cl)"
    and cp: "createPasses (rendertargets g2) (renderPasses g2) (renderpassesWithExternalRTs g2) r1
               = Inr (ps, ext, r')"
    and g': "g' = g2\<lparr> operations := ops, renderPasses := ps, renderpassesWithExternalRTs := ext \<rparr>"
    by (auto simp: build_def Let_def split: if_splits sum.splits)
  have inv: "\<forall>k p. map_of (renderPasses (g\<lparr> state := Ready, rendertargets := rts \<rparr>)) k = Some p
               \<longrightarrow> slotsMatch p"
    using sm by (auto simp: list_all_iff dest: map_of_SomeD)
  from inferLayouts_effect [OF il inv] op
  obtain p2 where p2: "map_of (renderPasses g2) k = Some p2" "slotsMatch p2"
      "initialLayoutsResolved p2"
    by blast
  from createPasses_desc [OF cp p2(1)] obtain p' where
    "map_of ps k = Some p'" "desc_rp p' = desc_rp p2" "rpDesc p' = rpDesc p2" by blast
  with p2 g' show ?thesis by (auto simp: slotsMatch_def initialLayoutsResolved_def)
qed

theorem keep_initial_layout_is_color_attachment_witness:
  "build (projr demoKeepGraph) (freshBackend [])
     = Inr (projr (build (projr demoKeepGraph) (freshBackend []))) \<and>
   list_all (\<lambda>(k, p). slotsMatch p) (renderPasses (projr demoKeepGraph)) \<and>
   RenderPassOp Final \<in> set (operations (projr demoKeepGraph)) \<and>
   colorLayouts (fst (projr (build (projr demoKeepGraph) (freshBackend [])))) Final
     = [(Keep, ColorAttachment, TransferSrc)] \<and>
   (\<exists>p'. map_of (renderPasses (fst (projr (build (projr demoKeepGraph) (freshBackend []))))) Final
            = Some p' \<and> slotsMatch p' \<and> initialLayoutsResolved p')"
proof -
  let ?g = "projr demoKeepGraph :: unit RenderGraph"
  let ?x = "build ?g (freshBackend [])"
  have ok: "?x = Inr (fst (projr ?x), snd (projr ?x))" by (simp add: demo_defs numeral_2_eq_2)
  have sm: "list_all (\<lambda>(k, p). slotsMatch p) (renderPasses ?g)"
    by (simp add: demo_defs slotsMatch_def numeral_2_eq_2)
  have op: "RenderPassOp Final \<in> set (operations ?g)" by (simp add: demo_defs numeral_2_eq_2)
  have cl: "colorLayouts (fst (projr ?x)) Final = [(Keep, ColorAttachment, TransferSrc)]"
    by (simp add: demo_defs numeral_2_eq_2)
  from keep_initial_layout_is_color_attachment [OF ok sm op] ok sm op cl
  show ?thesis by simp
qed

subsection \<open>reset\<close>

text \<open>
  Claim C3, as stated, on the built example graph: \<open>build\<close> created the backend render
  passes 3 and 5 and the framebuffers 4 and 6; the calls of the following \<open>reset\<close>, with
  a device that is busy at the first poll, are the two render target deletions and then
  the waiting.  No render pass and no framebuffer is deleted, and nothing is deleted after
  the wait.
\<close>

theorem reset_leaves_passes_and_waits_last:
  "builtPassHandles demoGraph
     = Inr [(3, 4), (5, 6)] \<and>
   resetCalls demoGraph [False, True]
     = Some (Inr [deleteRenderTarget 1, deleteRenderTarget 2,
                  waitForDeviceIdle, processEvents, waitForDeviceIdle])"
  by (simp add: demo_defs numeral_2_eq_2 waitUntilIdle.simps)

lemma deletePipelines_calls:
  "deletePipelines ps r = r\<lparr> calls := calls r @ map (\<lambda>p. deletePipeline (snd p)) ps \<rparr>"
  by (induction ps arbitrary: r) (auto simp: backendCall_def)

lemma deleteTargets_calls:
  "targetsDeletable rts \<Longrightarrow>
     deleteTargets rts r = Inr (r\<lparr> calls := calls r @ map deleteRenderTarget (internalHandles rts) \<rparr>)"
  by (induction rts arbitrary: r rule: internalHandles.induct) (auto simp: backendCall_def)

lemma waitUntilIdle_answers:
  "idleAnswers r = replicate n False @ True # rest \<Longrightarrow>
     waitUntilIdle r =
       Some (r\<lparr> calls := calls r @ concat (replicate n [waitForDeviceIdle, processEvents])
                          @ [waitForDeviceIdle],
                idleAnswers := rest \<rparr>)"
proof (induction n arbitrary: r)
  case 0
  then show ?case
    by (subst waitUntilIdle.simps) (simp add: backendWaitForDeviceIdle_def backendCall_def)
next
  case (Suc n)
  let ?r1 = "backendCall processEvents (backendCall waitForDeviceIdle (r\<lparr> idleAnswers := replicate n False @ True # rest \<rparr>))"
  have a: "idleAnswers ?r1 = replicate n False @ True # rest" by (simp add: backendCall_def)
  from Suc.prems have "waitUntilIdle r = waitUntilIdle ?r1"
    by (subst waitUntilIdle.simps) (simp add: backendWaitForDeviceIdle_def)
  also note Suc.IH [OF a]
  finally show ?case by (simp add: backendCall_def)
qed

text \<open>
  Claim C3, amended.  From the state Invalid or Ready, with a device that becomes idle
  at poll \<open>n + 1\<close>, \<open>reset\<close> returns: it has deleted every cached pipeline and every
  internal render target through the backend, then polled \<open>waitForDeviceIdle\<close>, pumping
  host events after each of the \<open>n\<close> unsuccessful polls; the deletions come before the
  first poll.  The graph is back in the state Building with its passes, targets,
  pipelines and operations emptied.
\<close>

theorem reset_deletes_then_waits:
  assumes st: "state g = State_Invalid \<or> state g = Ready"
      and ok: "targetsDeletable (rendertargets g)"
      and idle: "idleAnswers r = replicate n False @ True # rest"
  shows "\<exists>r' pre.
           reset g r = Some (Inr (g\<lparr> state := Building, renderPasses := [],
                                      renderpassesWithExternalRTs := [], hasExternalRTs := False,
                                      pipelines_rg := [], rendertargets := [], operations := [] \<rparr>, r')) \<and>
           calls r' = calls r @ pre @ concat (replicate n [waitForDeviceIdle, processEvents])
                        @ [waitForDeviceIdle] \<and>
           list_all (\<lambda>p. deletePipeline (snd p) \<in> set pre) (pipelines_rg g) \<and>
           list_all (\<lambda>h. deleteRenderTarget h \<in> set pre) (internalHandles (rendertargets g)) \<and>
           waitForDeviceIdle \<notin> set pre \<and> processEvents \<notin> set pre"
proof -
  let ?pre = "map (\<lambda>p. deletePipeline (snd p)) (pipelines_rg g)
                @ map deleteRenderTarget (internalHandles (rendertargets g))"
  let ?r2 = "r\<lparr> calls := calls r @ ?pre \<rparr>"
  have i2: "idleAnswers ?r2 = replicate n False @ True # rest" using idle by simp
  have "reset g r = Some (Inr (g\<lparr> state := Building, renderPasses := [],
                                      renderpassesWithExternalRTs := [], hasExternalRTs := False,
                                      pipelines_rg := [], rendertargets := [], operations := [] \<rparr>,
          ?r2\<lparr> calls := calls ?r2 @ concat (replicate n [waitForDeviceIdle, processEvents])
                          @ [waitForDeviceIdle], idleAnswers := rest \<rparr>))"
    using st by (auto simp: reset_def Let_def deletePipelines_calls deleteTargets_calls [OF ok]
        waitUntilIdle_answers [OF i2])
  moreover have "list_all (\<lambda>p. deletePipeline (snd p) \<in> set ?pre) (pipelines_rg g)"
    by (auto simp: list_all_iff)
  moreover have "list_all (\<lambda>h. deleteRenderTarget h \<in> set ?pre) (internalHandles (rendertargets g))"
    by (auto simp: list_all_iff)
  moreover have "waitForDeviceIdle \<notin> set ?pre \<and> processEvents \<notin> set ?pre" by auto
  ultimately show ?thesis by (intro exI [of _ "?r2\<lparr> calls := calls ?r2 @ concat (replicate n [waitForDeviceIdle, processEvents])
                          @ [waitForDeviceIdle], idleAnswers := rest \<rparr>"] exI [of _ ?pre]) simp
qed

theorem reset_deletes_then_waits_witness:
  "(state (fst (demoBuilt [False, True])) = State_Invalid \<or> state (fst (demoBuilt [False, True])) = Ready) \<and>
   targetsDeletable (rendertargets (fst (demoBuilt [False, True]))) \<and>
   idleAnswers (snd (demoBuilt [False, True])) = replicate 1 False @ True # [] \<and>
   internalHandles (rendertargets (fst (demoBuilt [False, True]))) = [1, 2] \<and>
   (\<exists>r' pre.
      reset (fst (demoBuilt [False, True])) (snd (demoBuilt [False, True]))
        = Some (Inr ((fst (demoBuilt [False, True]))\<lparr> state := Building, renderPasses := [],
                        renderpassesWithExternalRTs := [], hasExternalRTs := False,
                        pipelines_rg := [], rendertargets := [], operations := [] \<rparr>, r')) \<and>
      calls r' = calls (snd (demoBuilt [False, True])) @ pre
                   @ concat (replicate 1 [waitForDeviceIdle, processEvents]) @ [waitForDeviceIdle] \<and>
      list_all (\<lambda>h. deleteRenderTarget h \<in> set pre)
        (internalHandles (rendertargets (fst (demoBuilt [False, True])))))"
proof -
  let ?g = "fst (demoBuilt [False, True])" and ?r = "snd (demoBuilt [False, True])"
  have st: "state ?g = State_Invalid \<or> state ?g = Ready" by (simp add: demo_defs numeral_2_eq_2)
  have ok: "targetsDeletable (rendertargets ?g)" by (simp add: demo_defs numeral_2_eq_2)
  have idle: "idleAnswers ?r = replicate 1 False @ True # []" by (simp add: demo_defs numeral_2_eq_2)
  have ih: "internalHandles (rendertargets ?g) = [1, 2]" by (simp add: demo_defs numeral_2_eq_2)
  from reset_deletes_then_waits [OF st ok idle] st ok idle ih show ?thesis by blast
qed

subsection \<open>The pipeline cache\<close>

lemma findPipeline_map_of: "findPipeline ps d = map_of ps d"
  by (induction ps) auto

lemma createPipeline_rg_hit:
  assumes "state g = Ready \<or> state g = Rendering"
      and "map_of (renderPasses g) rp = Some pass"
      and "map_of (pipelines_rg g) (d\<lparr> renderPass_pd := handle_rp pass \<rparr>) = Some h"
  shows "createPipeline_rg g r rp d = Inr (h, g, r, d\<lparr> renderPass_pd := handle_rp pass \<rparr>)"
  using assms by (auto simp: createPipeline_rg_def Let_def findPipeline_map_of)

lemma createPipeline_rg_miss:
  assumes "state g = Ready \<or> state g = Rendering"
      and "map_of (renderPasses g) rp = Some pass"
      and "map_of (pipelines_rg g) (d\<lparr> renderPass_pd := handle_rp pass \<rparr>) = None"
  shows "createPipeline_rg g r rp d =
           Inr (Suc (handlesIssued r),
                g\<lparr> pipelines_rg := pipelines_rg g
                     @ [(d\<lparr> renderPass_pd := handle_rp pass \<rparr>, Suc (handlesIssued r))] \<rparr>,
                r\<lparr> calls := calls r @ [createPipeline (d\<lparr> renderPass_pd := handle_rp pass \<rparr>)],
                   handlesIssued := Suc (handlesIssued r) \<rparr>,
                d\<lparr> renderPass_pd := handle_rp pass \<rparr>)"
  using assms by (auto simp: createPipeline_rg_def Let_def findPipeline_map_of backendCreate_def)

text \<open>
  Claim C8.  In a graph that is built, \<open>createPipeline\<close> for a pass of the graph and a
  description returns: the description comes back with the backend render pass of the
  pass filled in; when the cache holds an equal description the handle is that of the
  first such entry and graph and backend are unchanged, otherwise the backend is sent one \<open>createPipeline\<close> with the filled-in
  description and its handle is appended to the cache.  A second call for the same pass
  with a description that is equal once the render pass is filled in returns the same
  handle and leaves graph and backend as they are: no backend pipeline is created.  A
  second call, for any pass, whose filled-in description is not in the cache (it differs
  in some field, or in the backend render pass) creates one more backend pipeline and
  returns the backend's next handle, which is not the first handle when the first call
  created its pipeline.
\<close>

theorem createPipeline_deduplicates:
  assumes st: "state g = Ready \<or> state g = Rendering"
      and pass: "map_of (renderPasses g) rp = Some pass"
  shows "\<exists>h g1 r1.
     createPipeline_rg g r rp d = Inr (h, g1, r1, d\<lparr> renderPass_pd := handle_rp pass \<rparr>) \<and>
     (case map_of (pipelines_rg g) (d\<lparr> renderPass_pd := handle_rp pass \<rparr>) of
        Some h0 \<Rightarrow> h = h0 \<and> g1 = g \<and> r1 = r
      | None \<Rightarrow>
          h = Suc (handlesIssued r) \<and>
          g1 = g\<lparr> pipelines_rg := pipelines_rg g @ [(d\<lparr> renderPass_pd := handle_rp pass \<rparr>, h)] \<rparr> \<and>
          r1 = r\<lparr> calls := calls r @ [createPipeline (d\<lparr> renderPass_pd := handle_rp pass \<rparr>)],
                  handlesIssued := h \<rparr>) \<and>
     (\<forall>d2. d2\<lparr> renderPass_pd := handle_rp pass \<rparr> = d\<lparr> renderPass_pd := handle_rp pass \<rparr> \<longrightarrow>
        createPipeline_rg g1 r1 rp d2 = Inr (h, g1, r1, d\<lparr> renderPass_pd := handle_rp pass \<rparr>)) \<and>
     (\<forall>rp2 pass2 d2.
        map_of (renderPasses g) rp2 = Some pass2 \<and>
        d2\<lparr> renderPass_pd := handle_rp pass2 \<rparr> \<notin> fst ` set (pipelines_rg g1) \<longrightarrow>
        (\<exists>h2 g2 r2.
           createPipeline_rg g1 r1 rp2 d2 = Inr (h2, g2, r2, d2\<lparr> renderPass_pd := handle_rp pass2 \<rparr>) \<and>
           h2 = Suc (handlesIssued r1) \<and>
           (map_of (pipelines_rg g) (d\<lparr> renderPass_pd := handle_rp pass \<rparr>) = None \<longrightarrow> h2 \<noteq> h) \<and>
           calls r2 = calls r1 @ [createPipeline (d2\<lparr> renderPass_pd := handle_rp pass2 \<rparr>)] \<and>
           pipelines_rg g2 = pipelines_rg g1 @ [(d2\<lparr> renderPass_pd := handle_rp pass2 \<rparr>, h2)]))"
proof -
  let ?d1 = "d\<lparr> renderPass_pd := handle_rp pass \<rparr>"
  let ?n = "handlesIssued r"
  show ?thesis
  proof (cases "map_of (pipelines_rg g) ?d1")
    case (Some h0)
    note c1 = createPipeline_rg_hit [OF st pass Some]
    have eq: "\<forall>d2. d2\<lparr> renderPass_pd := handle_rp pass \<rparr> = ?d1 \<longrightarrow>
                createPipeline_rg g r rp d2 = Inr (h0, g, r, ?d1)"
    proof (intro allI impI)
      fix d2 :: "'a PipelineDesc_scheme"
      assume e: "d2\<lparr> renderPass_pd := handle_rp pass \<rparr> = ?d1"
      from Some have "map_of (pipelines_rg g) (d2\<lparr> renderPass_pd := handle_rp pass \<rparr>) = Some h0"
        by (simp only: e)
      from createPipeline_rg_hit [OF st pass this] show "createPipeline_rg g r rp d2 = Inr (h0, g, r, ?d1)"
        by (simp only: e)
    qed
    have ne: "\<forall>rp2 pass2 d2.
        map_of (renderPasses g) rp2 = Some pass2 \<and>
        d2\<lparr> renderPass_pd := handle_rp pass2 \<rparr> \<notin> fst ` set (pipelines_rg g) \<longrightarrow>
        (\<exists>h2 g2 r2.
           createPipeline_rg g r rp2 d2 = Inr (h2, g2, r2, d2\<lparr> renderPass_pd := handle_rp pass2 \<rparr>) \<and>
           h2 = Suc (handlesIssued r) \<and>
           calls r2 = calls r @ [createPipeline (d2\<lparr> renderPass_pd := handle_rp pass2 \<rparr>)] \<and>
           pipelines_rg g2 = pipelines_rg g @ [(d2\<lparr> renderPass_pd := handle_rp pass2 \<rparr>, h2)])"
    proof (intro allI impI, elim conjE)
      fix rp2 pass2 and d2 :: "'a PipelineDesc_scheme"
      assume p2: "map_of (renderPasses g) rp2 = Some pass2"
        and nin: "d2\<lparr> renderPass_pd := handle_rp pass2 \<rparr> \<notin> fst ` set (pipelines_rg g)"
      from nin have "map_of (pipelines_rg g) (d2\<lparr> renderPass_pd := handle_rp pass2 \<rparr>) = None"
        by (simp only: map_of_eq_None_iff simp_thms)
      from createPipeline_rg_miss [OF st p2 this]
      show "\<exists>h2 g2 r2.
           createPipeline_rg g r rp2 d2 = Inr (h2, g2, r2, d2\<lparr> renderPass_pd := handle_rp pass2 \<rparr>) \<and>
           h2 = Suc (handlesIssued r) \<and>
           calls r2 = calls r @ [createPipeline (d2\<lparr> renderPass_pd := handle_rp pass2 \<rparr>)] \<and>
           pipelines_rg g2 = pipelines_rg g @ [(d2\<lparr> renderPass_pd := handle_rp pass2 \<rparr>, h2)]"
        by simp
    qed
    from c1 Some eq ne show ?thesis by (intro exI [of _ h0] exI [of _ g] exI [of _ r]) simp
  next
    case None
    let ?h = "Suc ?n"
    let ?g1 = "g\<lparr> pipelines_rg := pipelines_rg g @ [(?d1, ?h)] \<rparr>"
    let ?r1 = "r\<lparr> calls := calls r @ [createPipeline ?d1], handlesIssued := ?h \<rparr>"
    note c1 = createPipeline_rg_miss [OF st pass None]
    have st1: "state ?g1 = Ready \<or> state ?g1 = Rendering" using st by simp
    have pass1: "\<And>k p. map_of (renderPasses g) k = Some p \<Longrightarrow> map_of (renderPasses ?g1) k = Some p"
      by simp
    have hit: "map_of (pipelines_rg ?g1) ?d1 = Some ?h" using None by (simp add: map_add_def)
    have eq: "\<forall>d2. d2\<lparr> renderPass_pd := handle_rp pass \<rparr> = ?d1 \<longrightarrow>
                createPipeline_rg ?g1 ?r1 rp d2 = Inr (?h, ?g1, ?r1, ?d1)"
    proof (intro allI impI)
      fix d2 :: "'a PipelineDesc_scheme"
      assume e: "d2\<lparr> renderPass_pd := handle_rp pass \<rparr> = ?d1"
      from hit have "map_of (pipelines_rg ?g1) (d2\<lparr> renderPass_pd := handle_rp pass \<rparr>) = Some ?h"
        by (simp only: e)
      from createPipeline_rg_hit [OF st1 pass1 [OF pass] this]
      show "createPipeline_rg ?g1 ?r1 rp d2 = Inr (?h, ?g1, ?r1, ?d1)"
        by (simp only: e)
    qed
    have ne: "\<forall>rp2 pass2 d2.
        map_of (renderPasses g) rp2 = Some pass2 \<and>
        d2\<lparr> renderPass_pd := handle_rp pass2 \<rparr> \<notin> fst ` set (pipelines_rg ?g1) \<longrightarrow>
        (\<exists>h2 g2 r2.
           createPipeline_rg ?g1 ?r1 rp2 d2 = Inr (h2, g2, r2, d2\<lparr> renderPass_pd := handle_rp pass2 \<rparr>) \<and>
           h2 = Suc (handlesIssued ?r1) \<and> h2 \<noteq> ?h \<and>
           calls r2 = calls ?r1 @ [createPipeline (d2\<lparr> renderPass_pd := handle_rp pass2 \<rparr>)] \<and>
           pipelines_rg g2 = pipelines_rg ?g1 @ [(d2\<lparr> renderPass_pd := handle_rp pass2 \<rparr>, h2)])"
    proof (intro allI impI, elim conjE)
      fix rp2 pass2 and d2 :: "'a PipelineDesc_scheme"
      assume p2: "map_of (renderPasses g) rp2 = Some pass2"
        and nin: "d2\<lparr> renderPass_pd := handle_rp pass2 \<rparr> \<notin> fst ` set (pipelines_rg ?g1)"
      from nin have "map_of (pipelines_rg ?g1) (d2\<lparr> renderPass_pd := handle_rp pass2 \<rparr>) = None"
        by (simp only: map_of_eq_None_iff simp_thms)
      from createPipeline_rg_miss [OF st1 pass1 [OF p2] this, of ?r1]
      show "\<exists>h2 g2 r2.
           createPipeline_rg ?g1 ?r1 rp2 d2 = Inr (h2, g2, r2, d2\<lparr> renderPass_pd := handle_rp pass2 \<rparr>) \<and>
           h2 = Suc (handlesIssued ?r1) \<and> h2 \<noteq> ?h \<and>
           calls r2 = calls ?r1 @ [createPipeline (d2\<lparr> renderPass_pd := handle_rp pass2 \<rparr>)] \<and>
           pipelines_rg g2 = pipelines_rg ?g1 @ [(d2\<lparr> renderPass_pd := handle_rp pass2 \<rparr>, h2)]"
        by simp
    qed
    from c1 None eq ne show ?thesis
      by (intro exI [of _ ?h] exI [of _ ?g1] exI [of _ ?r1]) simp
  qed
qed


theorem createPipeline_deduplicates_witness:
  "state (fst demoKeepBuilt) = Ready \<and>
   map_of (renderPasses (fst demoKeepBuilt)) Final
     = Some (the (map_of (renderPasses (fst demoKeepBuilt)) Final)) \<and>
   handle_rp (the (map_of (renderPasses (fst demoKeepBuilt)) Final)) = 2 \<and>
   pipelines_rg (fst demoKeepBuilt) = [] \<and> handlesIssued (snd demoKeepBuilt) = 3 \<and>
   (\<exists>g1 r1.
      createPipeline_rg (fst demoKeepBuilt) (snd demoKeepBuilt) Final
          \<lparr> renderPass_pd = 0, descriptorSetLayouts = [], scissorTest = False \<rparr>
        = Inr (4, g1, r1, \<lparr> renderPass_pd = 2, descriptorSetLayouts = [], scissorTest = False \<rparr>) \<and>
      pipelines_rg g1 = [(\<lparr> renderPass_pd = 2, descriptorSetLayouts = [], scissorTest = False \<rparr>, 4)] \<and>
      calls r1 = calls (snd demoKeepBuilt)
                   @ [createPipeline \<lparr> renderPass_pd = 2, descriptorSetLayouts = [], scissorTest = False \<rparr>] \<and>
      createPipeline_rg g1 r1 Final
          \<lparr> renderPass_pd = 0, descriptorSetLayouts = [], scissorTest = False \<rparr>
        = Inr (4, g1, r1, \<lparr> renderPass_pd = 2, descriptorSetLayouts = [], scissorTest = False \<rparr>) \<and>
      createPipeline_rg g1 r1 Final
          \<lparr> renderPass_pd = 77, descriptorSetLayouts = [], scissorTest = False \<rparr>
        = Inr (4, g1, r1, \<lparr> renderPass_pd = 2, descriptorSetLayouts = [], scissorTest = False \<rparr>) \<and>
      (\<exists>g2 r2.
         createPipeline_rg g1 r1 Final
             \<lparr> renderPass_pd = 0, descriptorSetLayouts = [], scissorTest = True \<rparr>
           = Inr (5, g2, r2, \<lparr> renderPass_pd = 2, descriptorSetLayouts = [], scissorTest = True \<rparr>) \<and>
         calls r2 = calls r1
                   @ [createPipeline \<lparr> renderPass_pd = 2, descriptorSetLayouts = [], scissorTest = True \<rparr>] \<and>
         pipelines_rg g2
           = [(\<lparr> renderPass_pd = 2, descriptorSetLayouts = [], scissorTest = False \<rparr>, 4),
              (\<lparr> renderPass_pd = 2, descriptorSetLayouts = [], scissorTest = True \<rparr>, 5)]))"
proof -
  let ?g = "fst demoKeepBuilt" and ?r = "snd demoKeepBuilt"
  let ?P = "the (map_of (renderPasses ?g) Final)"
  let ?d = "\<lparr> renderPass_pd = 0, descriptorSetLayouts = [], scissorTest = False \<rparr>"
  let ?e = "\<lparr> renderPass_pd = 77, descriptorSetLayouts = [], scissorTest = False \<rparr>"
  let ?s = "\<lparr> renderPass_pd = 0, descriptorSetLayouts = [], scissorTest = True \<rparr>"
  let ?d1 = "\<lparr> renderPass_pd = 2, descriptorSetLayouts = [], scissorTest = False \<rparr>"
  let ?s1 = "\<lparr> renderPass_pd = 2, descriptorSetLayouts = [], scissorTest = True \<rparr>"
  have st: "state ?g = Ready \<or> state ?g = Rendering" and st': "state ?g = Ready"
    by (simp_all add: demo_defs demoKeepBuilt_def numeral_2_eq_2)
  have pass: "map_of (renderPasses ?g) Final = Some ?P"
    by (simp add: demo_defs demoKeepBuilt_def numeral_2_eq_2)
  have hp: "handle_rp ?P = 2" by (simp add: demo_defs demoKeepBuilt_def numeral_2_eq_2)
  have ps: "pipelines_rg ?g = []" by (simp add: demo_defs demoKeepBuilt_def numeral_2_eq_2)
  have hi: "handlesIssued ?r = 3" by (simp add: demo_defs demoKeepBuilt_def numeral_2_eq_2)
  have d1: "?d\<lparr> renderPass_pd := handle_rp ?P \<rparr> = ?d1"
    and e1: "?e\<lparr> renderPass_pd := handle_rp ?P \<rparr> = ?d1"
    and s1: "?s\<lparr> renderPass_pd := handle_rp ?P \<rparr> = ?s1"
    by (simp_all add: hp)
  from createPipeline_deduplicates [OF st pass, of ?r ?d]
  obtain h g1 r1 where
    c: "createPipeline_rg ?g ?r Final ?d = Inr (h, g1, r1, ?d1)"
    and f: "h = 4" "g1 = ?g\<lparr> pipelines_rg := [(?d1, 4)] \<rparr>"
           "r1 = ?r\<lparr> calls := calls ?r @ [createPipeline ?d1], handlesIssued := 4 \<rparr>"
    and eq: "\<And>d2. d2\<lparr> renderPass_pd := handle_rp ?P \<rparr> = ?d1 \<Longrightarrow>
                createPipeline_rg g1 r1 Final d2 = Inr (h, g1, r1, ?d1)"
    and ne: "\<And>rp2 pass2 d2.
        map_of (renderPasses ?g) rp2 = Some pass2 \<Longrightarrow>
        d2\<lparr> renderPass_pd := handle_rp pass2 \<rparr> \<notin> fst ` set (pipelines_rg g1) \<Longrightarrow>
        (\<exists>h2 g2 r2.
           createPipeline_rg g1 r1 rp2 d2 = Inr (h2, g2, r2, d2\<lparr> renderPass_pd := handle_rp pass2 \<rparr>) \<and>
           h2 = Suc (handlesIssued r1) \<and>
           (map_of (pipelines_rg g) (d\<lparr> renderPass_pd := handle_rp pass \<rparr>) = None \<longrightarrow> h2 \<noteq> h) \<and>
           calls r2 = calls r1 @ [createPipeline (d2\<lparr> renderPass_pd := handle_rp pass2 \<rparr>)] \<and>
           pipelines_rg g2 = pipelines_rg g1 @ [(d2\<lparr> renderPass_pd := handle_rp pass2 \<rparr>, h2)])"
    unfolding d1 ps hi by (auto simp: eval_nat_numeral)
  from f have pg1: "pipelines_rg g1 = [(?d1, 4)]" and cr1: "calls r1 = calls ?r @ [createPipeline ?d1]"
    and h1: "handlesIssued r1 = 4" by simp_all
  have "?s\<lparr> renderPass_pd := handle_rp ?P \<rparr> \<notin> fst ` set (pipelines_rg g1)"
    by (simp add: pg1 hp)
  from ne [OF pass this] obtain g2 r2 where
    n: "createPipeline_rg g1 r1 Final ?s = Inr (5, g2, r2, ?s1)"
       "calls r2 = calls r1 @ [createPipeline ?s1]"
       "pipelines_rg g2 = [(?d1, 4), (?s1, 5)]"
    unfolding s1 pg1 h1 by auto
  from c f(1) pg1 cr1 eq [OF d1] eq [OF e1] n
  have "\<exists>g1 r1.
      createPipeline_rg ?g ?r Final ?d = Inr (4, g1, r1, ?d1) \<and>
      pipelines_rg g1 = [(?d1, 4)] \<and>
      calls r1 = calls ?r @ [createPipeline ?d1] \<and>
      createPipeline_rg g1 r1 Final ?d = Inr (4, g1, r1, ?d1) \<and>
      createPipeline_rg g1 r1 Final ?e = Inr (4, g1, r1, ?d1) \<and>
      (\<exists>g2 r2.
         createPipeline_rg g1 r1 Final ?s = Inr (5, g2, r2, ?s1) \<and>
         calls r2 = calls r1 @ [createPipeline ?s1] \<and>
         pipelines_rg g2 = [(?d1, 4), (?s1, 5)])"
    by blast
  with st' pass hp ps hi show ?thesis by (simp only: simp_thms)
qed

end
